theory Spec2Isabelle
  imports Main "HOL-Library.Word"
begin

unbundle bit_operations_syntax

section \<open>JavaScript values\<close>

text \<open>
  The drivers store and return arbitrary JavaScript values. The model keeps the
  JSON-shaped part of them: \<open>undefined\<close>, \<open>null\<close>, booleans, numbers, strings,
  arrays and plain objects, and the built-in objects that every object inherits
  (\<open>JBuiltin\<close>, by name: \<open>Object.prototype\<close> itself and its functions).
  Numbers are the integers plus \<open>NaN\<close> (the drivers' doc comments speak of "an
  integer item"); strings are byte strings.

  A value is its content: an array or an object has no identity of its own. The
  drivers change one kind of value in place, the arrays of the tag indexes of
  MemoryDriver, so the model is faithful where no two tag indexes are the same
  array and where a value handed to the driver shares no array with an index;
  the statements that depend on it say so.
\<close>

datatype jsval =
    JUndefined
  | JNull
  | JBool bool
  | JNum int
  | JNaN
  | JStr string
  | JArr "jsval list"
  | JObj "(string \<times> jsval) list"
  | JBuiltin string

text \<open>\<open>typeof v\<close>.\<close>

fun js_typeof :: "jsval \<Rightarrow> jsval" where
  "js_typeof JUndefined = JStr ''undefined''"
| "js_typeof JNull = JStr ''object''"
| "js_typeof (JBool b) = JStr ''boolean''"
| "js_typeof (JNum n) = JStr ''number''"
| "js_typeof JNaN = JStr ''number''"
| "js_typeof (JStr s) = JStr ''string''"
| "js_typeof (JArr xs) = JStr ''object''"
| "js_typeof (JObj ps) = JStr ''object''"
| "js_typeof (JBuiltin n) = JStr (if n = ''Object.prototype'' then ''object'' else ''function'')"

text \<open>\<open>a === b\<close> on the values that the drivers compare (primitives).\<close>

definition strict_equals :: "jsval \<Rightarrow> jsval \<Rightarrow> bool" where
  "strict_equals a b = (a = b \<and> a \<noteq> JNaN)"

text \<open>The condition of \<open>if (v)\<close>: every value is truthy except \<open>undefined\<close>,
  \<open>null\<close>, \<open>false\<close>, \<open>0\<close>, \<open>NaN\<close> and the empty string.\<close>

fun truthy :: "jsval \<Rightarrow> bool" where
  "truthy JUndefined = False"
| "truthy JNull = False"
| "truthy (JBool b) = b"
| "truthy (JNum n) = (n \<noteq> 0)"
| "truthy JNaN = False"
| "truthy (JStr s) = (s \<noteq> [])"
| "truthy (JArr xs) = True"
| "truthy (JObj ps) = True"
| "truthy (JBuiltin n) = True"

text \<open>\<open>Number.isNaN(v)\<close> does not coerce: it holds of the number \<open>NaN\<close> only.\<close>

fun Number_isNaN :: "jsval \<Rightarrow> bool" where
  "Number_isNaN JNaN = True"
| "Number_isNaN v = False"

text \<open>\<open>v == undefined\<close> (loose equality) holds of \<open>undefined\<close> and \<open>null\<close>.\<close>

fun loosely_undefined :: "jsval \<Rightarrow> bool" where
  "loosely_undefined JUndefined = True"
| "loosely_undefined JNull = True"
| "loosely_undefined v = False"

subsection \<open>Conversion to strings\<close>

definition digit_char :: "nat \<Rightarrow> char" where
  "digit_char n = ''0123456789'' ! (n mod 10)"

fun show_nat :: "nat \<Rightarrow> string" where
  "show_nat n = (if n < 10 then [digit_char n] else show_nat (n div 10) @ [digit_char (n mod 10)])"

declare show_nat.simps [simp del]

definition show_int :: "int \<Rightarrow> string" where
  "show_int i = (if i < 0 then CHR ''-'' # show_nat (nat (- i)) else show_nat (nat i))"

text \<open>\<open>xs.join(sep)\<close> on strings.\<close>

fun join :: "string \<Rightarrow> string list \<Rightarrow> string" where
  "join sep [] = []"
| "join sep [x] = x"
| "join sep (x # y # ys) = x @ sep @ join sep (y # ys)"

text \<open>\<open>String(v)\<close>, which is also how a value used as a property name is read.
  An array prints its elements separated by commas, \<open>null\<close> and \<open>undefined\<close>
  elements as nothing.\<close>

fun to_string :: "jsval \<Rightarrow> string" where
  "to_string JUndefined = ''undefined''"
| "to_string JNull = ''null''"
| "to_string (JBool b) = (if b then ''true'' else ''false'')"
| "to_string (JNum n) = show_int n"
| "to_string JNaN = ''NaN''"
| "to_string (JStr s) = s"
| "to_string (JArr xs) =
     join '','' (map (\<lambda>x. if x = JUndefined \<or> x = JNull then [] else to_string x) xs)"
| "to_string (JObj ps) = ''[object Object]''"
| "to_string (JBuiltin n) =
     (if n = ''Object.prototype'' then ''[object Object]''
      else ''function '' @ n @ ''() { [native code] }'')"

subsection \<open>Array and string methods used by the drivers\<close>

text \<open>\<open>xs.indexOf(r)\<close> for a string \<open>r\<close>: the first position holding a value
  strictly equal to \<open>r\<close>, or \<open>-1\<close>.\<close>

fun array_indexOf :: "jsval list \<Rightarrow> string \<Rightarrow> int" where
  "array_indexOf [] r = - 1"
| "array_indexOf (x # xs) r =
     (if strict_equals x (JStr r) then 0
      else (let i = array_indexOf xs r in if i < 0 then - 1 else i + 1))"

text \<open>\<open>s.indexOf(r)\<close> on a string: the first position where \<open>r\<close> occurs in
  \<open>s\<close>, or \<open>-1\<close>.\<close>

fun string_indexOf :: "string \<Rightarrow> string \<Rightarrow> int" where
  "string_indexOf [] r = (if r = [] then 0 else - 1)"
| "string_indexOf (c # s) r =
     (if take (length r) (c # s) = r then 0
      else (let i = string_indexOf s r in if i < 0 then - 1 else i + 1))"

text \<open>\<open>xs.splice(i, 1)\<close>: the array without its element at position \<open>i\<close>.\<close>

definition splice1 :: "nat \<Rightarrow> 'a list \<Rightarrow> 'a list" where
  "splice1 i xs = take i xs @ drop (Suc i) xs"

section \<open>SHA-1\<close>

text \<open>
  \<open>crypto.createHash('sha1').update(s).digest('hex')\<close>: the FIPS 180 hash of the
  bytes of \<open>s\<close>, printed as forty lowercase hexadecimal digits.
\<close>

type_synonym w32 = "32 word"

definition rotl :: "nat \<Rightarrow> w32 \<Rightarrow> w32" where
  "rotl n w = push_bit n w OR drop_bit (32 - n) w"

definition be64 :: "64 word \<Rightarrow> 8 word list" where
  "be64 n = map (\<lambda>i. ucast (drop_bit (8 * (7 - i)) n)) [0..<8]"

definition sha1_pad :: "8 word list \<Rightarrow> 8 word list" where
  "sha1_pad bs =
     bs @ [0x80] @ replicate ((64 - (length bs + 9) mod 64) mod 64) 0
        @ be64 (8 * of_nat (length bs))"

fun be_words :: "8 word list \<Rightarrow> w32 list" where
  "be_words (a # b # c # d # rest) =
     (push_bit 24 (ucast a) OR push_bit 16 (ucast b) OR push_bit 8 (ucast c) OR ucast d)
       # be_words rest"
| "be_words rest = []"

fun blocks :: "nat \<Rightarrow> w32 list \<Rightarrow> w32 list list" where
  "blocks 0 ws = []"
| "blocks (Suc n) ws = take 16 ws # blocks n (drop 16 ws)"

fun schedule :: "nat \<Rightarrow> w32 list \<Rightarrow> w32 list" where
  "schedule 0 w = w"
| "schedule (Suc n) w =
     (let t = length w
      in schedule n (w @ [rotl 1 (w ! (t - 3) XOR w ! (t - 8) XOR w ! (t - 14) XOR w ! (t - 16))]))"

type_synonym sha1_state = "w32 \<times> w32 \<times> w32 \<times> w32 \<times> w32"

fun sha1_round :: "w32 list \<Rightarrow> nat \<Rightarrow> sha1_state \<Rightarrow> sha1_state" where
  "sha1_round w t (a, b, c, d, e) =
     (let f = (if t < 20 then (b AND c) OR (NOT b AND d)
               else if t < 40 then b XOR c XOR d
               else if t < 60 then (b AND c) OR (b AND d) OR (c AND d)
               else b XOR c XOR d);
          k = (if t < 20 then 0x5A827999
               else if t < 40 then 0x6ED9EBA1
               else if t < 60 then 0x8F1BBCDC
               else 0xCA62C1D6)
      in (rotl 5 a + f + e + k + w ! t, a, rotl 30 b, c, d))"

fun sha1_block :: "w32 list \<Rightarrow> sha1_state \<Rightarrow> sha1_state" where
  "sha1_block blk (h0, h1, h2, h3, h4) =
     (case fold (sha1_round (schedule 64 blk)) [0..<80] (h0, h1, h2, h3, h4) of
        (a, b, c, d, e) \<Rightarrow> (h0 + a, h1 + b, h2 + c, h3 + d, h4 + e))"

definition sha1 :: "string \<Rightarrow> sha1_state" where
  "sha1 s =
     (let ws = be_words (sha1_pad (map of_char s))
      in fold sha1_block (blocks (length ws div 16) ws)
           (0x67452301, 0xEFCDAB89, 0x98BADCFE, 0x10325476, 0xC3D2E1F0))"

definition hex_digit :: "nat \<Rightarrow> char" where
  "hex_digit n = ''0123456789abcdef'' ! (n mod 16)"

definition hex_word :: "w32 \<Rightarrow> string" where
  "hex_word w = map (\<lambda>i. hex_digit (unat (drop_bit (4 * (7 - i)) w AND 0xF))) [0..<8]"

fun digest_hex :: "sha1_state \<Rightarrow> string" where
  "digest_hex (h0, h1, h2, h3, h4) = concat (map hex_word [h0, h1, h2, h3, h4])"

definition sha1_hex :: "string \<Rightarrow> string" where
  "sha1_hex s = digest_hex (sha1 s)"

section \<open>TagSet (src/tagset.js)\<close>

record TagSet =
  names :: "string list"
  keys :: "string list"
  namespace :: string
  hash :: string

text \<open>The constructor \<open>new TagSet(...names)\<close>.\<close>

definition new_TagSet :: "string list \<Rightarrow> TagSet" where
  "new_TagSet ns =
     (let ks = map (\<lambda>name. ''tags:'' @ name) ns;
          nsp = join ''|'' ks
      in \<lparr> names = ns, keys = ks, namespace = nsp, hash = sha1_hex nsp \<rparr>)"

text \<open>\<open>ref(key)\<close>: the storage key of a tagged entry.\<close>

definition ref :: "TagSet \<Rightarrow> string \<Rightarrow> string" where
  "ref ts key = hash ts @ '':'' @ key"

section \<open>Promises and errors\<close>

text \<open>
  Every driver operation returns a promise. An operation is modelled by the
  settled promise together with the state it leaves behind: a callback that
  throws half-way keeps the writes it made before throwing.
\<close>

datatype error =
    Error string
  | TypeError string
  | BackendError

datatype 'a promise = Resolved 'a | Rejected error

section \<open>Driver and Serializer (src/driver.js, src/serializer.js)\<close>

text \<open>A serializer is a pair of pure codecs on values.\<close>

record Serializer =
  serialize :: "jsval \<Rightarrow> jsval"
  deserialize :: "jsval \<Rightarrow> jsval"

record Driver =
  namespace_opt :: "string option"
  serializer :: "Serializer option"

text \<open>\<open>Driver.serialize\<close> and \<open>Driver.deserialize\<close>: the configured
  serializer, or the value itself when none is configured.\<close>

definition Driver_serialize :: "'a Driver_scheme \<Rightarrow> jsval \<Rightarrow> jsval" where
  "Driver_serialize d v = (case serializer d of Some z \<Rightarrow> serialize z v | None \<Rightarrow> v)"

definition Driver_deserialize :: "'a Driver_scheme \<Rightarrow> jsval \<Rightarrow> jsval" where
  "Driver_deserialize d v = (case serializer d of Some z \<Rightarrow> deserialize z v | None \<Rightarrow> v)"

subsection \<open>JsonSerializer (src/serializers/json.js)\<close>

text \<open>The text that \<open>JSON.stringify\<close> produces. It has no text for
  \<open>undefined\<close> and for functions: alone they give \<open>undefined\<close>, in an
  array \<open>null\<close>, and a property that holds one is left out.\<close>

fun json_omitted :: "jsval \<Rightarrow> bool" where
  "json_omitted JUndefined = True"
| "json_omitted (JBuiltin n) = (n \<noteq> ''Object.prototype'')"
| "json_omitted v = False"

definition json_escape :: "char \<Rightarrow> string" where
  "json_escape c =
     (if c = CHR 0x22 then [CHR 0x5C, CHR 0x22]
      else if c = CHR 0x5C then [CHR 0x5C, CHR 0x5C]
      else if c = CHR 0x08 then [CHR 0x5C, CHR ''b'']
      else if c = CHR 0x09 then [CHR 0x5C, CHR ''t'']
      else if c = CHR 0x0A then [CHR 0x5C, CHR ''n'']
      else if c = CHR 0x0C then [CHR 0x5C, CHR ''f'']
      else if c = CHR 0x0D then [CHR 0x5C, CHR ''r'']
      else if (of_char c :: nat) < 32
        then [CHR 0x5C, CHR ''u'', CHR ''0'', CHR ''0'',
              hex_digit (of_char c div 16), hex_digit (of_char c mod 16)]
      else [c])"

definition json_quote :: "string \<Rightarrow> string" where
  "json_quote s = [CHR 0x22] @ concat (map json_escape s) @ [CHR 0x22]"

fun json_text :: "jsval \<Rightarrow> string" where
  "json_text JUndefined = ''null''"
| "json_text JNull = ''null''"
| "json_text (JBool b) = (if b then ''true'' else ''false'')"
| "json_text (JNum n) = show_int n"
| "json_text JNaN = ''null''"
| "json_text (JStr s) = json_quote s"
| "json_text (JArr xs) = ''['' @ join '','' (map json_text xs) @ '']''"
| "json_text (JObj ps) =
     ''{'' @ join '','' (map (\<lambda>p. json_quote (fst p) @ '':'' @ json_text (snd p))
                          (filter (\<lambda>p. \<not> json_omitted (snd p)) ps)) @ ''}''"
| "json_text (JBuiltin n) = (if n = ''Object.prototype'' then ''{}'' else ''null'')"

definition JSON_stringify :: "jsval \<Rightarrow> jsval" where
  "JSON_stringify v = (if json_omitted v then JUndefined else JStr (json_text v))"

text \<open>\<open>JsonSerializer.serialize\<close> and \<open>JsonSerializer.deserialize\<close>; the
  built-in \<open>JSON.parse\<close> is a parameter.\<close>

definition JsonSerializer_serialize :: "jsval \<Rightarrow> jsval" where
  "JsonSerializer_serialize v = (if v \<noteq> JUndefined then JSON_stringify v else v)"

definition JsonSerializer_deserialize :: "(string \<Rightarrow> jsval) \<Rightarrow> jsval \<Rightarrow> jsval" where
  "JsonSerializer_deserialize JSON_parse v =
     (if js_typeof v = JStr ''string'' then JSON_parse (to_string v) else v)"

definition JsonSerializer :: "(string \<Rightarrow> jsval) \<Rightarrow> Serializer" where
  "JsonSerializer JSON_parse =
     \<lparr> serialize = JsonSerializer_serialize,
       deserialize = JsonSerializer_deserialize JSON_parse \<rparr>"

section \<open>Arithmetic of increment and decrement\<close>

text \<open>\<open>value += amount\<close> for a numeric \<open>amount\<close>: addition on numbers,
  concatenation when \<open>value\<close> is a string, an array or an object.\<close>

fun js_add :: "jsval \<Rightarrow> int \<Rightarrow> jsval" where
  "js_add (JNum n) a = JNum (n + a)"
| "js_add JNaN a = JNaN"
| "js_add JUndefined a = JNaN"
| "js_add JNull a = JNum a"
| "js_add (JBool b) a = JNum ((if b then 1 else 0) + a)"
| "js_add (JStr s) a = JStr (s @ show_int a)"
| "js_add (JArr xs) a = JStr (to_string (JArr xs) @ show_int a)"
| "js_add (JObj ps) a = JStr (to_string (JObj ps) @ show_int a)"
| "js_add (JBuiltin n) a = JStr (to_string (JBuiltin n) @ show_int a)"

text \<open>\<open>Number(s)\<close> on a string, for the decimal integer literals: surrounding
  white space is dropped, the empty string is \<open>0\<close>, an optional sign and digits
  give the integer, anything else is \<open>NaN\<close>.\<close>

definition is_space :: "char \<Rightarrow> bool" where
  "is_space c = (c \<in> set [CHR 0x20, CHR 0x09, CHR 0x0A, CHR 0x0B, CHR 0x0C, CHR 0x0D])"

definition is_digit :: "char \<Rightarrow> bool" where
  "is_digit c = (c \<in> set ''0123456789'')"

definition digits_value :: "string \<Rightarrow> int" where
  "digits_value s = foldl (\<lambda>n c. 10 * n + (of_char c - 48)) 0 s"

definition trim :: "string \<Rightarrow> string" where
  "trim s = rev (dropWhile is_space (rev (dropWhile is_space s)))"

definition unsigned_to_number :: "string \<Rightarrow> jsval" where
  "unsigned_to_number s = (if s \<noteq> [] \<and> list_all is_digit s then JNum (digits_value s) else JNaN)"

definition string_to_number :: "string \<Rightarrow> jsval" where
  "string_to_number s =
     (case trim s of
        [] \<Rightarrow> JNum 0
      | c # cs \<Rightarrow>
          if c = CHR ''-'' then (case unsigned_to_number cs of JNum n \<Rightarrow> JNum (- n) | v \<Rightarrow> JNaN)
          else if c = CHR ''+'' then unsigned_to_number cs
          else unsigned_to_number (c # cs))"

fun to_number :: "jsval \<Rightarrow> jsval" where
  "to_number JUndefined = JNaN"
| "to_number JNull = JNum 0"
| "to_number (JBool b) = JNum (if b then 1 else 0)"
| "to_number (JNum n) = JNum n"
| "to_number JNaN = JNaN"
| "to_number (JStr s) = string_to_number s"
| "to_number (JArr xs) = string_to_number (to_string (JArr xs))"
| "to_number (JObj ps) = JNaN"
| "to_number (JBuiltin n) = JNaN"

text \<open>\<open>value -= amount\<close> for a numeric \<open>amount\<close>.\<close>

definition js_sub :: "jsval \<Rightarrow> int \<Rightarrow> jsval" where
  "js_sub v a = (case to_number v of JNum n \<Rightarrow> JNum (n - a) | w \<Rightarrow> JNaN)"

section \<open>The timer runtime\<close>

text \<open>\<open>setInterval\<close> registers a periodic callback and returns its handle;
  \<open>clearInterval\<close> cancels the timer with the given handle and does nothing
  when given \<open>undefined\<close>. The runtime is the list of live handles.\<close>

record runtime =
  intervals :: "nat list"
  next_handle :: nat

definition setInterval :: "runtime \<Rightarrow> nat \<times> runtime" where
  "setInterval rt =
     (next_handle rt,
      rt\<lparr> intervals := next_handle rt # intervals rt, next_handle := Suc (next_handle rt) \<rparr>)"

definition clearInterval :: "nat option \<Rightarrow> runtime \<Rightarrow> runtime" where
  "clearInterval h rt =
     (case h of None \<Rightarrow> rt | Some t \<Rightarrow> rt\<lparr> intervals := removeAll t (intervals rt) \<rparr>)"

section \<open>MemoryDriver (src/drivers/memory.js)\<close>

text \<open>An entry \<open>{key, ttl}\<close> of the roster \<open>this.ttl\<close>.\<close>

record ttl_entry =
  entry_key :: string
  entry_ttl :: int

subsection \<open>The value object\<close>

text \<open>
  \<open>this.memory\<close> is a plain object \<open>{}\<close>: it has its own properties, and it
  inherits those of its prototype, which is \<open>Object.prototype\<close> until a write
  to \<open>__proto__\<close> replaces it by \<open>null\<close> or by another object.
\<close>

datatype proto = ObjectPrototype | NullPrototype | OtherPrototype jsval

text \<open>The names that \<open>Object.prototype\<close> hands down, and what a read of such
  a name gives: \<open>__proto__\<close> reads the prototype, \<open>constructor\<close> the function
  \<open>Object\<close>, every other name the function of that name.\<close>

definition object_prototype_names :: "string list" where
  "object_prototype_names =
     [''__proto__'', ''constructor'', ''hasOwnProperty'', ''isPrototypeOf'',
      ''propertyIsEnumerable'', ''toLocaleString'', ''toString'', ''valueOf'',
      ''__defineGetter__'', ''__defineSetter__'', ''__lookupGetter__'', ''__lookupSetter__'']"

definition object_prototype_property :: "string \<Rightarrow> jsval" where
  "object_prototype_property k =
     (if k = ''__proto__'' then JBuiltin ''Object.prototype''
      else if k = ''constructor'' then JBuiltin ''Object''
      else if k \<in> set object_prototype_names then JBuiltin k
      else JUndefined)"

text \<open>What the object inherits under a name. Of a replaced prototype only the
  read of \<open>__proto__\<close> is modelled, not the properties that the new prototype
  hands down; the statements that depend on inherited properties are about an
  object with its original prototype.\<close>

fun inherited :: "proto \<Rightarrow> string \<Rightarrow> jsval" where
  "inherited ObjectPrototype k = object_prototype_property k"
| "inherited NullPrototype k = JUndefined"
| "inherited (OtherPrototype v) k = (if k = ''__proto__'' then v else JUndefined)"

text \<open>The instance: the own properties of \<open>this.memory\<close> and its prototype,
  the roster \<open>this.ttl\<close> and the handle \<open>this.timer\<close>.\<close>

record MemoryDriver = Driver +
  memory :: "string \<rightharpoonup> jsval"
  prototype :: proto
  ttl :: "ttl_entry list"
  timer :: nat

text \<open>The read \<open>this.memory[k]\<close>: the own property, or else the inherited one.\<close>

definition lookup :: "proto \<Rightarrow> (string \<rightharpoonup> jsval) \<Rightarrow> string \<Rightarrow> jsval" where
  "lookup p m k = (case m k of None \<Rightarrow> inherited p k | Some v \<Rightarrow> v)"

fun is_object :: "jsval \<Rightarrow> bool" where
  "is_object (JArr xs) = True"
| "is_object (JObj ps) = True"
| "is_object (JBuiltin n) = True"
| "is_object v = False"

text \<open>The write \<open>this.memory[k] = v\<close>. It makes or updates an own property,
  except under the name \<open>__proto__\<close> while that name is inherited: there the
  write goes to the setter of \<open>Object.prototype\<close>, which replaces the
  prototype when \<open>v\<close> is an object or \<open>null\<close> and does nothing otherwise.\<close>

definition set_property :: "MemoryDriver \<Rightarrow> string \<Rightarrow> jsval \<Rightarrow> MemoryDriver" where
  "set_property d k v =
     (if k = ''__proto__'' \<and> memory d ''__proto__'' = None \<and> prototype d \<noteq> NullPrototype
      then (if v = JNull then d\<lparr> prototype := NullPrototype \<rparr>
            else if v = JBuiltin ''Object.prototype'' then d\<lparr> prototype := ObjectPrototype \<rparr>
            else if is_object v then d\<lparr> prototype := OtherPrototype v \<rparr>
            else d)
      else d\<lparr> memory := (memory d)(k \<mapsto> v) \<rparr>)"

text \<open>The constructor.\<close>

definition new_MemoryDriver :: "Driver \<Rightarrow> runtime \<Rightarrow> MemoryDriver \<times> runtime" where
  "new_MemoryDriver options rt =
     (case setInterval rt of (h, rt') \<Rightarrow>
        (\<lparr> namespace_opt = namespace_opt options, serializer = serializer options,
           memory = Map.empty, prototype = ObjectPrototype, ttl = [], timer = h \<rparr>, rt'))"

subsection \<open>tick\<close>

text \<open>The loop \<open>while (i--)\<close> visits the roster from its last entry to its
  first; \<open>tick_loop i\<close> is the loop with \<open>i\<close> entries still to visit.\<close>

fun tick_loop :: "nat \<Rightarrow> MemoryDriver \<Rightarrow> MemoryDriver" where
  "tick_loop 0 d = d"
| "tick_loop (Suc i) d =
     (if entry_ttl (ttl d ! i) \<le> 0
      then tick_loop i (d\<lparr> memory := (memory d)(entry_key (ttl d ! i) := None),
                            ttl := splice1 i (ttl d) \<rparr>)
      else tick_loop i (d\<lparr> ttl := (ttl d)[i := (ttl d ! i)\<lparr> entry_ttl := entry_ttl (ttl d ! i) - 1 \<rparr>] \<rparr>))"

definition tick :: "MemoryDriver \<Rightarrow> MemoryDriver" where
  "tick d = tick_loop (length (ttl d)) d"

subsection \<open>get, getMany, has\<close>

definition resolve_key :: "TagSet option \<Rightarrow> string \<Rightarrow> string" where
  "resolve_key tagset key = (case tagset of Some ts \<Rightarrow> ref ts key | None \<Rightarrow> key)"

definition MemoryDriver_get :: "MemoryDriver \<Rightarrow> string \<Rightarrow> TagSet option \<Rightarrow> jsval" where
  "MemoryDriver_get d key tagset =
     Driver_deserialize d (lookup (prototype d) (memory d) (resolve_key tagset key))"

definition MemoryDriver_getMany :: "MemoryDriver \<Rightarrow> string list \<Rightarrow> TagSet option \<Rightarrow> jsval list" where
  "MemoryDriver_getMany d ks tagset =
     map (\<lambda>key. Driver_deserialize d (lookup (prototype d) (memory d) key))
       (map (resolve_key tagset) ks)"

definition MemoryDriver_has :: "MemoryDriver \<Rightarrow> string \<Rightarrow> TagSet option \<Rightarrow> bool" where
  "MemoryDriver_has d key tagset =
     (\<not> strict_equals (lookup (prototype d) (memory d) (resolve_key tagset key)) JUndefined)"

subsection \<open>put, putMany, forever\<close>

text \<open>\<open>forEach\<close> over the tag-index keys with a callback that may throw: the
  first throw ends the loop and the object stays as it was at that moment.\<close>

fun forEach_key ::
  "(string \<Rightarrow> (string \<rightharpoonup> jsval) \<Rightarrow> error option \<times> (string \<rightharpoonup> jsval)) \<Rightarrow> string list
     \<Rightarrow> (string \<rightharpoonup> jsval) \<Rightarrow> error option \<times> (string \<rightharpoonup> jsval)" where
  "forEach_key f [] m = (None, m)"
| "forEach_key f (k # ks) m =
     (case f k m of
        (Some e, m') \<Rightarrow> (Some e, m')
      | (None, m') \<Rightarrow> forEach_key f ks m')"

text \<open>The callback of \<open>put\<close> for one tag-index key \<open>k\<close>: a falsy slot becomes
  an empty array, then \<open>ref\<close> is pushed unless \<open>indexOf\<close> finds it. A slot that
  holds a string answers \<open>indexOf\<close> by substring search and has no \<open>push\<close>;
  a slot that holds any other non-array has no \<open>indexOf\<close>. The keys of a
  TagSet start with \<open>"tags:"\<close>, so the writes make own properties; \<open>p\<close> is
  the prototype of the object. \<open>push\<close> changes the array in place; the model
  gives the slot the longer array, which is the same as long as the array is
  stored in this slot only.\<close>

definition put_index ::
  "proto \<Rightarrow> string \<Rightarrow> string \<Rightarrow> (string \<rightharpoonup> jsval) \<Rightarrow> error option \<times> (string \<rightharpoonup> jsval)" where
  "put_index p r k m =
     (let m1 = (if \<not> truthy (lookup p m k) then m(k \<mapsto> JArr []) else m)
      in case lookup p m1 k of
           JArr xs \<Rightarrow>
             (if array_indexOf xs r < 0 then (None, m1(k \<mapsto> JArr (xs @ [JStr r])))
              else (None, m1))
         | JStr s \<Rightarrow>
             (if string_indexOf s r < 0 then (Some (TypeError ''push is not a function''), m1)
              else (None, m1))
         | _ \<Rightarrow> (Some (TypeError ''indexOf is not a function''), m1))"

text \<open>The write of the value and of the roster entry; \<open>ttl\<close> is \<open>None\<close>
  when the argument is \<open>undefined\<close>, and \<open>if (ttl)\<close> holds of the numbers other
  than zero. Without a serializer the object that the caller passed is stored
  itself; the model stores its content.\<close>

definition put_value :: "MemoryDriver \<Rightarrow> string \<Rightarrow> jsval \<Rightarrow> int option \<Rightarrow> MemoryDriver" where
  "put_value d key v t =
     (set_property d key (Driver_serialize d v))
       \<lparr> ttl := (case t of
                  Some n \<Rightarrow> if n \<noteq> 0 then ttl d @ [\<lparr> entry_key = key, entry_ttl = n \<rparr>] else ttl d
                | None \<Rightarrow> ttl d) \<rparr>"

definition MemoryDriver_put ::
  "MemoryDriver \<Rightarrow> string \<Rightarrow> jsval \<Rightarrow> int option \<Rightarrow> TagSet option \<Rightarrow> unit promise \<times> MemoryDriver" where
  "MemoryDriver_put d key v t tagset =
     (case tagset of
        Some ts \<Rightarrow>
          (case forEach_key (put_index (prototype d) (ref ts key)) (keys ts) (memory d) of
             (Some e, m) \<Rightarrow> (Rejected e, d\<lparr> memory := m \<rparr>)
           | (None, m) \<Rightarrow> (Resolved (), put_value (d\<lparr> memory := m \<rparr>) (ref ts key) v t))
      | None \<Rightarrow> (Resolved (), put_value d key v t))"

text \<open>\<open>putMany\<close> puts the items in order; the promise is rejected with the
  first rejection.\<close>

fun MemoryDriver_putMany ::
  "MemoryDriver \<Rightarrow> (string \<times> jsval) list \<Rightarrow> int option \<Rightarrow> TagSet option \<Rightarrow> unit promise \<times> MemoryDriver" where
  "MemoryDriver_putMany d [] t tagset = (Resolved (), d)"
| "MemoryDriver_putMany d (item # items) t tagset =
     (case MemoryDriver_put d (fst item) (snd item) t tagset of
        (r, d') \<Rightarrow>
          (case MemoryDriver_putMany d' items t tagset of
             (r', d'') \<Rightarrow> (case r of Rejected e \<Rightarrow> (Rejected e, d'') | Resolved u \<Rightarrow> (r', d''))))"

definition MemoryDriver_forever ::
  "MemoryDriver \<Rightarrow> string \<Rightarrow> jsval \<Rightarrow> TagSet option \<Rightarrow> unit promise \<times> MemoryDriver" where
  "MemoryDriver_forever d key v tagset =
     MemoryDriver_put d key (Driver_serialize d v) None tagset"

subsection \<open>increment, decrement\<close>

definition MemoryDriver_increment ::
  "MemoryDriver \<Rightarrow> string \<Rightarrow> int \<Rightarrow> TagSet option \<Rightarrow> jsval promise \<times> MemoryDriver" where
  "MemoryDriver_increment d key amount tagset =
     (let k = resolve_key tagset key;
          v0 = Driver_deserialize d (lookup (prototype d) (memory d) k);
          v = (if strict_equals (js_typeof v0) JUndefined then JNum 0 else v0)
      in if strict_equals (js_typeof v) (JStr ''number'')
         then (Resolved (js_add v amount),
               set_property d k (Driver_serialize d (js_add v amount)))
         else (Rejected (Error ''cannot increase a non-number value''), d))"

definition MemoryDriver_decrement ::
  "MemoryDriver \<Rightarrow> string \<Rightarrow> int \<Rightarrow> TagSet option \<Rightarrow> jsval promise \<times> MemoryDriver" where
  "MemoryDriver_decrement d key amount tagset =
     (let k = resolve_key tagset key;
          v0 = Driver_deserialize d (lookup (prototype d) (memory d) k);
          v = (if strict_equals (js_typeof v0) JUndefined then JNum 0 else v0)
      in if strict_equals (js_typeof v) (JStr ''number'')
         then (Resolved (js_sub v amount),
               set_property d k (Driver_serialize d (js_sub v amount)))
         else (Rejected (Error ''cannot decrease a non-number value''), d))"

subsection \<open>forget, flush\<close>

text \<open>The callback of \<open>forget\<close> for one tag-index key.\<close>

definition forget_index ::
  "proto \<Rightarrow> string \<Rightarrow> string \<Rightarrow> (string \<rightharpoonup> jsval) \<Rightarrow> error option \<times> (string \<rightharpoonup> jsval)" where
  "forget_index p r k m =
     (if truthy (lookup p m k)
      then (case lookup p m k of
              JArr xs \<Rightarrow>
                (let i = array_indexOf xs r
                 in if i \<ge> 0 then (None, m(k \<mapsto> JArr (splice1 (nat i) xs))) else (None, m))
            | JStr s \<Rightarrow>
                (if string_indexOf s r \<ge> 0 then (Some (TypeError ''splice is not a function''), m)
                 else (None, m))
            | _ \<Rightarrow> (Some (TypeError ''indexOf is not a function''), m))
      else (None, m))"

text \<open>\<open>xs.findIndex(t => t.key === key)\<close>.\<close>

fun findIndex :: "ttl_entry list \<Rightarrow> string \<Rightarrow> int" where
  "findIndex [] key = - 1"
| "findIndex (e # es) key =
     (if entry_key e = key then 0
      else (let i = findIndex es key in if i < 0 then - 1 else i + 1))"

definition forget_value :: "MemoryDriver \<Rightarrow> string \<Rightarrow> MemoryDriver" where
  "forget_value d key =
     (let index = findIndex (ttl d) key
      in d\<lparr> memory := (memory d)(key := None),
            ttl := (if index \<ge> 0 then splice1 (nat index) (ttl d) else ttl d) \<rparr>)"

definition MemoryDriver_forget ::
  "MemoryDriver \<Rightarrow> string \<Rightarrow> TagSet option \<Rightarrow> unit promise \<times> MemoryDriver" where
  "MemoryDriver_forget d key tagset =
     (case tagset of
        Some ts \<Rightarrow>
          (case forEach_key (forget_index (prototype d) (ref ts key)) (keys ts) (memory d) of
             (Some e, m) \<Rightarrow> (Rejected e, d\<lparr> memory := m \<rparr>)
           | (None, m) \<Rightarrow> (Resolved (), forget_value (d\<lparr> memory := m \<rparr>) (ref ts key)))
      | None \<Rightarrow> (Resolved (), forget_value d key))"

text \<open>The callback of \<open>flush\<close> for one tag-index key: every element of the
  array names a property to delete, then the key itself is deleted. A truthy slot
  that is not an array has no \<open>forEach\<close>. \<open>delete\<close> removes an own property and
  leaves inherited ones.\<close>

definition delete_all :: "jsval list \<Rightarrow> (string \<rightharpoonup> jsval) \<Rightarrow> (string \<rightharpoonup> jsval)" where
  "delete_all ps m = fold (\<lambda>p m'. m'(to_string p := None)) ps m"

definition flush_index ::
  "proto \<Rightarrow> string \<Rightarrow> (string \<rightharpoonup> jsval) \<Rightarrow> error option \<times> (string \<rightharpoonup> jsval)" where
  "flush_index p k m =
     (if truthy (lookup p m k)
      then (case lookup p m k of
              JArr xs \<Rightarrow> (None, (delete_all xs m)(k := None))
            | _ \<Rightarrow> (Some (TypeError ''forEach is not a function''), m))
      else (None, m(k := None)))"

text \<open>Without tags, \<open>flush\<close> sets \<open>this.memory\<close> to a new object \<open>{}\<close>.\<close>

definition MemoryDriver_flush :: "MemoryDriver \<Rightarrow> TagSet option \<Rightarrow> unit promise \<times> MemoryDriver" where
  "MemoryDriver_flush d tagset =
     (case tagset of
        Some ts \<Rightarrow>
          (case forEach_key (flush_index (prototype d)) (keys ts) (memory d) of
             (Some e, m) \<Rightarrow> (Rejected e, d\<lparr> memory := m \<rparr>)
           | (None, m) \<Rightarrow> (Resolved (), d\<lparr> memory := m \<rparr>))
      | None \<Rightarrow> (Resolved (), d\<lparr> memory := Map.empty, prototype := ObjectPrototype, ttl := [] \<rparr>))"

subsection \<open>dispose\<close>

text \<open>\<open>dispose\<close> deletes properties of the instance, so it is modelled on the
  instance's own properties, each \<open>None\<close> once deleted; reading a deleted
  property gives \<open>undefined\<close>.\<close>

record MemoryDriver_props =
  prop_memory :: "(string \<rightharpoonup> jsval) option"
  prop_ttl :: "ttl_entry list option"
  prop_timer :: "nat option"

definition props_of :: "MemoryDriver \<Rightarrow> MemoryDriver_props" where
  "props_of d = \<lparr> prop_memory = Some (memory d), prop_ttl = Some (ttl d), prop_timer = Some (timer d) \<rparr>"

definition MemoryDriver_dispose ::
  "MemoryDriver \<Rightarrow> runtime \<Rightarrow> unit promise \<times> MemoryDriver_props \<times> runtime" where
  "MemoryDriver_dispose d rt =
     (let p1 = (props_of d)\<lparr> prop_memory := None \<rparr>;
          p2 = p1\<lparr> prop_ttl := None \<rparr>;
          p3 = p2\<lparr> prop_timer := None \<rparr>;
          rt' = clearInterval (prop_timer p3) rt
      in (Resolved (), p3, rt'))"

section \<open>RedisDriver\<close>

text \<open>
  The client library is not part of the repository. It is modelled as the
  server's key space together with a flag for the transport: while the transport
  is down every command calls back with an error. \<open>GET\<close> of a missing key calls
  back with \<open>null\<close>, \<open>MGET\<close> with one slot per key, \<open>null\<close> for a missing one.
  The server holds text: \<open>SET\<close> stores \<open>String(value)\<close>, which is what the
  client sends.
\<close>

record RedisClient =
  redis_store :: "string \<rightharpoonup> jsval"
  redis_up :: bool

definition redis_get :: "RedisClient \<Rightarrow> string \<Rightarrow> error + jsval" where
  "redis_get c k =
     (if redis_up c then Inr (case redis_store c k of None \<Rightarrow> JNull | Some v \<Rightarrow> v)
      else Inl BackendError)"

definition redis_mget :: "RedisClient \<Rightarrow> string list \<Rightarrow> error + jsval list" where
  "redis_mget c ks =
     (if redis_up c
      then Inr (map (\<lambda>k. case redis_store c k of None \<Rightarrow> JNull | Some v \<Rightarrow> v) ks)
      else Inl BackendError)"

definition redis_set :: "RedisClient \<Rightarrow> string \<Rightarrow> jsval \<Rightarrow> error + RedisClient" where
  "redis_set c k v =
     (if redis_up c then Inr (c\<lparr> redis_store := (redis_store c)(k \<mapsto> JStr (to_string v)) \<rparr>)
      else Inl BackendError)"

record RedisDriver = Driver +
  redis :: RedisClient

definition RedisDriver_getMany ::
  "RedisDriver \<Rightarrow> string list \<Rightarrow> TagSet option \<Rightarrow> jsval list promise" where
  "RedisDriver_getMany d ks tagset =
     (case redis_mget (redis d) (map (resolve_key tagset) ks) of
        Inl err \<Rightarrow> Rejected err
      | Inr values \<Rightarrow> Resolved (map (Driver_deserialize d) values))"

definition RedisDriver_increment ::
  "RedisDriver \<Rightarrow> string \<Rightarrow> int \<Rightarrow> TagSet option \<Rightarrow> jsval promise \<times> RedisDriver" where
  "RedisDriver_increment d key amount tagset =
     (let k = resolve_key tagset key
      in case redis_get (redis d) k of
           Inl err \<Rightarrow> (Rejected err, d)
         | Inr v0 \<Rightarrow>
             (let v = (if loosely_undefined v0 then JNum 0 else Driver_deserialize d v0)
              in if Number_isNaN v
                 then (Rejected (Error ''cannont increase a non-number value''), d)
                 else (case redis_set (redis d) k (Driver_serialize d (js_add v amount)) of
                         Inl err \<Rightarrow> (Rejected err, d)
                       | Inr c \<Rightarrow> (Resolved (js_add v amount), d\<lparr> redis := c \<rparr>))))"

definition RedisDriver_decrement ::
  "RedisDriver \<Rightarrow> string \<Rightarrow> int \<Rightarrow> TagSet option \<Rightarrow> jsval promise \<times> RedisDriver" where
  "RedisDriver_decrement d key amount tagset =
     (let k = resolve_key tagset key
      in case redis_get (redis d) k of
           Inl err \<Rightarrow> (Rejected err, d)
         | Inr v0 \<Rightarrow>
             (let v = (if loosely_undefined v0 then JNum 0 else Driver_deserialize d v0)
              in if Number_isNaN v
                 then (Rejected (Error ''cannont decrease a non-number value''), d)
                 else (case redis_set (redis d) k (Driver_serialize d (js_sub v amount)) of
                         Inl err \<Rightarrow> (Rejected err, d)
                       | Inr c \<Rightarrow> (Resolved (js_sub v amount), d\<lparr> redis := c \<rparr>))))"

section \<open>MemcachedDriver (src/drivers/memcached.js)\<close>

text \<open>
  The client library is modelled like the Redis one. \<open>get\<close> of a missing key
  calls back with \<open>undefined\<close>. \<open>getMulti\<close> calls back with an object that has
  one property for each requested key that is stored; an object has each property
  name once, and \<open>Object.keys\<close> lists them.
\<close>

record MemcachedClient =
  memcached_store :: "string \<rightharpoonup> jsval"
  memcached_up :: bool

definition memcached_get :: "MemcachedClient \<Rightarrow> string \<Rightarrow> error + jsval" where
  "memcached_get c k =
     (if memcached_up c then Inr (case memcached_store c k of None \<Rightarrow> JUndefined | Some v \<Rightarrow> v)
      else Inl BackendError)"

definition memcached_getMulti :: "MemcachedClient \<Rightarrow> string list \<Rightarrow> error + (string \<times> jsval) list" where
  "memcached_getMulti c ks =
     (if memcached_up c
      then Inr (concat (map (\<lambda>k. case memcached_store c k of None \<Rightarrow> [] | Some v \<Rightarrow> [(k, v)])
                          (remdups ks)))
      else Inl BackendError)"

definition memcached_set :: "MemcachedClient \<Rightarrow> string \<Rightarrow> jsval \<Rightarrow> int \<Rightarrow> error + MemcachedClient" where
  "memcached_set c k v lifetime =
     (if memcached_up c then Inr (c\<lparr> memcached_store := (memcached_store c)(k \<mapsto> v) \<rparr>)
      else Inl BackendError)"

record MemcachedDriver = Driver +
  memcached :: MemcachedClient

text \<open>\<open>Object.keys(values).map(key => this.deserialize(values[key]))\<close>.\<close>

definition MemcachedDriver_getMany ::
  "MemcachedDriver \<Rightarrow> string list \<Rightarrow> TagSet option \<Rightarrow> jsval list promise" where
  "MemcachedDriver_getMany d ks tagset =
     (case memcached_getMulti (memcached d) (map (resolve_key tagset) ks) of
        Inl err \<Rightarrow> Rejected err
      | Inr values \<Rightarrow>
          Resolved (map (\<lambda>key. Driver_deserialize d
                                  (case map_of values key of None \<Rightarrow> JUndefined | Some v \<Rightarrow> v))
                      (map fst values)))"

definition MemcachedDriver_increment ::
  "MemcachedDriver \<Rightarrow> string \<Rightarrow> int \<Rightarrow> TagSet option \<Rightarrow> jsval promise \<times> MemcachedDriver" where
  "MemcachedDriver_increment d key amount tagset =
     (let k = resolve_key tagset key
      in case memcached_get (memcached d) k of
           Inl err \<Rightarrow> (Rejected err, d)
         | Inr v0 \<Rightarrow>
             (let v = (if loosely_undefined v0 then JNum 0 else Driver_deserialize d v0)
              in if Number_isNaN v
                 then (Rejected (Error ''cannont increase a non-number value''), d)
                 else (case memcached_set (memcached d) k (Driver_serialize d (js_add v amount)) 0 of
                         Inl err \<Rightarrow> (Rejected err, d)
                       | Inr c \<Rightarrow> (Resolved (js_add v amount), d\<lparr> memcached := c \<rparr>))))"

definition MemcachedDriver_decrement ::
  "MemcachedDriver \<Rightarrow> string \<Rightarrow> int \<Rightarrow> TagSet option \<Rightarrow> jsval promise \<times> MemcachedDriver" where
  "MemcachedDriver_decrement d key amount tagset =
     (let k = resolve_key tagset key
      in case memcached_get (memcached d) k of
           Inl err \<Rightarrow> (Rejected err, d)
         | Inr v0 \<Rightarrow>
             (let v = (if loosely_undefined v0 then JNum 0 else Driver_deserialize d v0)
              in if Number_isNaN v
                 then (Rejected (Error ''cannont decrease a non-number value''), d)
                 else (case memcached_set (memcached d) k (Driver_serialize d (js_sub v amount)) 0 of
                         Inl err \<Rightarrow> (Rejected err, d)
                       | Inr c \<Rightarrow> (Resolved (js_sub v amount), d\<lparr> memcached := c \<rparr>))))"

section \<open>Auxiliary notions for the statements\<close>

text \<open>The property names that a flush of the tag-index key \<open>k\<close> deletes: the
  elements of the array stored there, read as property names.\<close>

definition index_refs :: "MemoryDriver \<Rightarrow> string \<Rightarrow> string list" where
  "index_refs d k =
     (case lookup (prototype d) (memory d) k of JArr xs \<Rightarrow> map to_string xs | _ \<Rightarrow> [])"

fun is_array :: "jsval \<Rightarrow> bool" where
  "is_array (JArr xs) = True"
| "is_array v = False"

text \<open>A tag-index slot that \<open>put\<close> can use: empty (falsy) or an array.\<close>

definition index_slot_ok :: "proto \<Rightarrow> (string \<rightharpoonup> jsval) \<Rightarrow> string \<Rightarrow> bool" where
  "index_slot_ok p m k = (is_array (lookup p m k) \<or> \<not> truthy (lookup p m k))"



text \<open>A driver as constructed, without serializer, on a runtime without timers.\<close>

definition plain_MemoryDriver :: MemoryDriver where
  "plain_MemoryDriver =
     fst (new_MemoryDriver \<lparr> namespace_opt = None, serializer = None \<rparr>
            \<lparr> intervals = [], next_handle = 0 \<rparr>)"

text \<open>A driver on which \<open>put("k", 0, 60)\<close> has run with the two tags \<open>b\<close>
  and \<open>c\<close>.\<close>

definition two_tag_driver :: MemoryDriver where
  "two_tag_driver =
     snd (MemoryDriver_put plain_MemoryDriver ''k'' (JNum 0) (Some 60)
            (Some (new_TagSet [''b'', ''c''])))"

text \<open>A serializer that a caller can supply (any instance of \<open>Serializer\<close> is
  accepted): an integer is stored as its decimal text.\<close>

definition decimal_Serializer :: Serializer where
  "decimal_Serializer =
     \<lparr> serialize = (\<lambda>v. case v of JNum n \<Rightarrow> JStr (show_int n) | _ \<Rightarrow> v),
       deserialize = (\<lambda>v. case v of JStr s \<Rightarrow> string_to_number s | _ \<Rightarrow> v) \<rparr>"

definition decimal_MemoryDriver :: MemoryDriver where
  "decimal_MemoryDriver =
     fst (new_MemoryDriver \<lparr> namespace_opt = None, serializer = Some decimal_Serializer \<rparr>
            \<lparr> intervals = [], next_handle = 0 \<rparr>)"

text \<open>\<open>n\<close> sweep ticks in a row.\<close>

fun ticks :: "nat \<Rightarrow> MemoryDriver \<Rightarrow> MemoryDriver" where
  "ticks 0 d = d"
| "ticks (Suc n) d = ticks n (tick d)"

text \<open>The two things that \<open>tick\<close> does to a roster entry: evict it when its
  counter is not positive, count it down otherwise.\<close>

definition expired :: "ttl_entry \<Rightarrow> bool" where
  "expired e = (entry_ttl e \<le> 0)"

definition countdown :: "ttl_entry \<Rightarrow> ttl_entry" where
  "countdown e = e\<lparr> entry_ttl := entry_ttl e - 1 \<rparr>"

text \<open>While the roster entries of a key still count down from \<open>c\<close>, the key holds
  its value; once they are evicted, nothing is left of the key.\<close>

definition counting :: "string \<Rightarrow> jsval \<Rightarrow> int \<Rightarrow> MemoryDriver \<Rightarrow> bool" where
  "counting k sv c d =
     (memory d k = Some sv \<and> (\<exists>e \<in> set (ttl d). entry_key e = k)
      \<and> (\<forall>e \<in> set (ttl d). entry_key e = k \<longrightarrow> entry_ttl e = c))"

definition gone :: "string \<Rightarrow> MemoryDriver \<Rightarrow> bool" where
  "gone k d = (memory d k = None \<and> (\<forall>e \<in> set (ttl d). entry_key e \<noteq> k))"

text \<open>The invariant of the tag indexes: an array stored under a key that starts
  with \<open>"tags:"\<close> holds no value twice.\<close>

definition duplicate_free :: "(string \<rightharpoonup> jsval) \<Rightarrow> bool" where
  "duplicate_free m = (\<forall>k xs. take 5 k = ''tags:'' \<and> m k = Some (JArr xs) \<longrightarrow> distinct xs)"

text \<open>The operations of a driver that is used with tags: each of \<open>put\<close>,
  \<open>putMany\<close> and \<open>forever\<close> comes with the names of its TagSet, \<open>forget\<close>
  and \<open>flush\<close> with the names of a TagSet or with none, and \<open>Tick\<close> is a
  firing of the sweep timer. A sequence of operations runs in order; an operation
  whose promise is rejected leaves the state it reached, and the next one runs
  from there.\<close>

datatype operation =
    Put string jsval "int option" "string list"
  | PutMany "(string \<times> jsval) list" "int option" "string list"
  | Forever string jsval "string list"
  | Forget string "string list option"
  | Flush "string list option"
  | Tick

fun run_operation :: "MemoryDriver \<Rightarrow> operation \<Rightarrow> MemoryDriver" where
  "run_operation d (Put k v t ns) = snd (MemoryDriver_put d k v t (Some (new_TagSet ns)))"
| "run_operation d (PutMany items t ns) = snd (MemoryDriver_putMany d items t (Some (new_TagSet ns)))"
| "run_operation d (Forever k v ns) = snd (MemoryDriver_forever d k v (Some (new_TagSet ns)))"
| "run_operation d (Forget k nso) = snd (MemoryDriver_forget d k (map_option new_TagSet nso))"
| "run_operation d (Flush nso) = snd (MemoryDriver_flush d (map_option new_TagSet nso))"
| "run_operation d Tick = tick d"

fun run_operations :: "MemoryDriver \<Rightarrow> operation list \<Rightarrow> MemoryDriver" where
  "run_operations d [] = d"
| "run_operations d (x # xs) = run_operations (run_operation d x) xs"

text \<open>
  The history of a driver: every call that changes it, with the names of its
  TagSet or with none, and the firings of the sweep timer. \<open>driver_after\<close> is
  the driver that the constructor made, after the calls of a history have run in
  order (a rejected call leaves the state it reached); nothing else changes the
  state of the driver.
\<close>

datatype call =
    Call_put string jsval "int option" "string list option"
  | Call_putMany "(string \<times> jsval) list" "int option" "string list option"
  | Call_increment string int "string list option"
  | Call_decrement string int "string list option"
  | Call_forever string jsval "string list option"
  | Call_forget string "string list option"
  | Call_flush "string list option"
  | Call_tick

fun run_call :: "MemoryDriver \<Rightarrow> call \<Rightarrow> MemoryDriver" where
  "run_call d (Call_put k v t nso) = snd (MemoryDriver_put d k v t (map_option new_TagSet nso))"
| "run_call d (Call_putMany items t nso) =
     snd (MemoryDriver_putMany d items t (map_option new_TagSet nso))"
| "run_call d (Call_increment k a nso) = snd (MemoryDriver_increment d k a (map_option new_TagSet nso))"
| "run_call d (Call_decrement k a nso) = snd (MemoryDriver_decrement d k a (map_option new_TagSet nso))"
| "run_call d (Call_forever k v nso) = snd (MemoryDriver_forever d k v (map_option new_TagSet nso))"
| "run_call d (Call_forget k nso) = snd (MemoryDriver_forget d k (map_option new_TagSet nso))"
| "run_call d (Call_flush nso) = snd (MemoryDriver_flush d (map_option new_TagSet nso))"
| "run_call d Call_tick = tick d"

fun run_calls :: "MemoryDriver \<Rightarrow> call list \<Rightarrow> MemoryDriver" where
  "run_calls d [] = d"
| "run_calls d (c # cs) = run_calls (run_call d c) cs"

definition driver_after :: "Driver \<Rightarrow> runtime \<Rightarrow> call list \<Rightarrow> MemoryDriver" where
  "driver_after options rt cs = run_calls (fst (new_MemoryDriver options rt)) cs"

text \<open>
  The key space that the driver keeps for itself: the tag indexes under the keys
  that start with \<open>"tags:"\<close>, and the name \<open>__proto__\<close>, which stands for
  the prototype of the value object. A call respects it when it comes with a
  TagSet (it then writes under a reference key), or writes nothing, or writes
  under a key outside this space. On a driver whose history respects the reserved
  keys, every tag index is an array that \<open>put\<close> itself made for that index, so
  no two indexes are the same array, and the value object has its original
  prototype.
\<close>

definition reserved :: "string \<Rightarrow> bool" where
  "reserved k = (take 5 k = ''tags:'' \<or> k = ''__proto__'')"

fun respectful :: "call \<Rightarrow> bool" where
  "respectful (Call_put k v t None) = (\<not> reserved k)"
| "respectful (Call_putMany items t None) = list_all (\<lambda>item. \<not> reserved (fst item)) items"
| "respectful (Call_increment k a None) = (\<not> reserved k)"
| "respectful (Call_decrement k a None) = (\<not> reserved k)"
| "respectful (Call_forever k v None) = (\<not> reserved k)"
| "respectful c = True"

text \<open>The state of the tag indexes on such a driver: every key that starts with
  \<open>"tags:"\<close> is empty or holds an array, and the prototype is the original
  one.\<close>

definition indexes_intact :: "MemoryDriver \<Rightarrow> bool" where
  "indexes_intact d =
     (prototype d = ObjectPrototype
      \<and> (\<forall>k. take 5 k = ''tags:'' \<longrightarrow> index_slot_ok (prototype d) (memory d) k))"

text \<open>A driver with a history: constructed with the decimal serializer, then
  \<open>put("total", 1)\<close>, \<open>put("j", 2, 1)\<close> with the tag \<open>B\<close>, and one firing of
  the sweep timer.\<close>

definition used_history :: "call list" where
  "used_history =
     [Call_put ''total'' (JNum 1) None None,
      Call_put ''j'' (JNum 2) (Some 1) (Some [''B'']),
      Call_tick]"

definition used_MemoryDriver :: MemoryDriver where
  "used_MemoryDriver =
     driver_after \<lparr> namespace_opt = None, serializer = Some decimal_Serializer \<rparr>
       \<lparr> intervals = [], next_handle = 0 \<rparr> used_history"

text \<open>A driver as constructed with the JSON serializer.\<close>

definition json_MemoryDriver :: "(string \<Rightarrow> jsval) \<Rightarrow> MemoryDriver" where
  "json_MemoryDriver JSON_parse =
     fst (new_MemoryDriver \<lparr> namespace_opt = None, serializer = Some (JsonSerializer JSON_parse) \<rparr>
            \<lparr> intervals = [], next_handle = 0 \<rparr>)"

text \<open>Remote drivers without serializer whose server holds the given entries.\<close>

definition plain_RedisDriver :: "(string \<times> jsval) list \<Rightarrow> RedisDriver" where
  "plain_RedisDriver entries =
     \<lparr> namespace_opt = None, serializer = None,
       redis = \<lparr> redis_store = map_of entries, redis_up = True \<rparr> \<rparr>"

definition plain_MemcachedDriver :: "(string \<times> jsval) list \<Rightarrow> MemcachedDriver" where
  "plain_MemcachedDriver entries =
     \<lparr> namespace_opt = None, serializer = None,
       memcached = \<lparr> memcached_store = map_of entries, memcached_up = True \<rparr> \<rparr>"

section \<open>Properties of the reference keys\<close>
subsection \<open>The shape of a digest\<close>

lemma hex_digit_mem: "hex_digit n \<in> set ''0123456789abcdef''"
proof -
  have "n mod 16 < length ''0123456789abcdef''" by simp
  then show ?thesis unfolding hex_digit_def by (rule nth_mem)
qed

lemma length_hex_word: "length (hex_word w) = 8"
  by (simp add: hex_word_def)

lemma set_hex_word: "set (hex_word w) \<subseteq> set ''0123456789abcdef''"
  unfolding hex_word_def using hex_digit_mem by auto

lemma length_sha1_hex: "length (sha1_hex s) = 40"
  by (cases "sha1 s") (simp add: sha1_hex_def length_hex_word)

lemma set_sha1_hex: "set (sha1_hex s) \<subseteq> set ''0123456789abcdef''"
proof (cases "sha1 s")
  case (fields a b c d e)
  then show ?thesis
    using set_hex_word [of a] set_hex_word [of b] set_hex_word [of c]
      set_hex_word [of d] set_hex_word [of e]
    by (simp add: sha1_hex_def)
qed

lemma sha1_hex_Cons: "\<exists>c cs. sha1_hex s = c # cs \<and> c \<in> set ''0123456789abcdef''"
proof (cases "sha1_hex s")
  case Nil
  then show ?thesis using length_sha1_hex [of s] by simp
next
  case (Cons c cs)
  then show ?thesis using set_sha1_hex [of s] by auto
qed

lemma sha1_hex_not_tags [simp]: "sha1_hex s @ r \<noteq> CHR ''t'' # x"
  using sha1_hex_Cons [of s] by auto

lemma sha1_hex_not_tags' [simp]: "CHR ''t'' # x \<noteq> sha1_hex s @ r"
  using sha1_hex_not_tags [of s r x] by metis

lemma sha1_hex_append_eq [simp]: "(sha1_hex s @ r = sha1_hex s' @ r') = (sha1_hex s = sha1_hex s' \<and> r = r')"
  by (simp add: append_eq_append_conv length_sha1_hex)

lemma join_Cons: "join sep (x # xs) = (if xs = [] then x else x @ sep @ join sep xs)"
  by (cases xs) simp_all

lemma split_at_bar:
  assumes "c \<notin> set x" "c \<notin> set y" "x @ c # r = y @ c # r'"
  shows "x = y \<and> r = r'"
proof -
  have "takeWhile (\<lambda>a. a \<noteq> c) (x @ c # r) = x" using assms(1) by (induction x) auto
  moreover have "takeWhile (\<lambda>a. a \<noteq> c) (y @ c # r') = y" using assms(2) by (induction y) auto
  ultimately have "x = y" using assms(3) by simp
  then show ?thesis using assms(3) by simp
qed

lemma join_bar_inj:
  assumes "\<forall>x \<in> set xs. CHR ''|'' \<notin> set x \<and> x \<noteq> []"
      and "\<forall>y \<in> set ys. CHR ''|'' \<notin> set y \<and> y \<noteq> []"
      and "join ''|'' xs = join ''|'' ys"
    shows "xs = ys"
  using assms
proof (induction xs arbitrary: ys)
  case Nil
  then show ?case by (cases ys) (auto simp: join_Cons split: if_splits)
next
  case (Cons x xs)
  show ?case
  proof (cases ys)
    case Nil
    then show ?thesis using Cons.prems by (auto simp: join_Cons split: if_splits)
  next
    case (Cons y ys')
    have nx: "CHR ''|'' \<notin> set x" and ny: "CHR ''|'' \<notin> set y"
      using Cons.prems Cons by auto
    show ?thesis
    proof (cases "xs = []")
      case True
      show ?thesis
      proof (cases "ys' = []")
        case True
        then show ?thesis using \<open>xs = []\<close> Cons Cons.prems(3) by (simp add: join_Cons)
      next
        case False
        then have "x = y @ ''|'' @ join ''|'' ys'"
          using \<open>xs = []\<close> Cons Cons.prems(3) by (simp add: join_Cons)
        then show ?thesis using nx by simp
      qed
    next
      case False
      show ?thesis
      proof (cases "ys' = []")
        case True
        then have "y = x @ ''|'' @ join ''|'' xs"
          using \<open>xs \<noteq> []\<close> Cons Cons.prems(3) by (simp add: join_Cons)
        then show ?thesis using ny by simp
      next
        case ne: False
        have "x @ CHR ''|'' # join ''|'' xs = y @ CHR ''|'' # join ''|'' ys'"
          using False ne Cons Cons.prems(3) by (simp add: join_Cons)
        from split_at_bar [OF nx ny this]
        have "x = y" "join ''|'' xs = join ''|'' ys'" by simp_all
        moreover have "xs = ys'"
          using Cons.IH [of ys'] Cons.prems Cons \<open>join ''|'' xs = join ''|'' ys'\<close> by simp
        ultimately show ?thesis using Cons by simp
      qed
    qed
  qed
qed

lemma namespace_inj:
  assumes "\<forall>n \<in> set N \<union> set N'. CHR ''|'' \<notin> set n"
      and "namespace (new_TagSet N) = namespace (new_TagSet N')"
    shows "N = N'"
proof -
  have "map (\<lambda>name. ''tags:'' @ name) N = map (\<lambda>name. ''tags:'' @ name) N'"
    using assms by (intro join_bar_inj) (auto simp: new_TagSet_def Let_def)
  moreover have "inj (\<lambda>name. ''tags:'' @ name)" by (simp add: inj_on_def)
  ultimately show ?thesis by (simp add: inj_map_eq_map)
qed
subsection \<open>Reference-key derivation\<close>

text \<open>
  Claim C3, as amended. \<open>TagSet(N).ref(k)\<close> is a function of the name sequence
  \<open>N\<close> and of \<open>k\<close>: the lowercase hexadecimal SHA-1 digest (forty digits) of
  the strings \<open>"tags:" + name\<close> joined with \<open>"|"\<close>, followed by \<open>":"\<close> and
  \<open>k\<close>. Two different name sequences none of whose names contains \<open>"|"\<close> give
  different strings to the hash, so their digests differ unless SHA-1 collides.
\<close>

theorem C3_ref_derivation:
  "ref (new_TagSet N) k = sha1_hex (join ''|'' (map (\<lambda>name. ''tags:'' @ name) N)) @ '':'' @ k
   \<and> length (hash (new_TagSet N)) = 40
   \<and> set (hash (new_TagSet N)) \<subseteq> set ''0123456789abcdef''
   \<and> ((\<forall>n \<in> set N \<union> set N'. CHR ''|'' \<notin> set n) \<and> N \<noteq> N'
        \<longrightarrow> namespace (new_TagSet N) \<noteq> namespace (new_TagSet N'))"
  using namespace_inj [of N N'] length_sha1_hex set_sha1_hex
  by (auto simp: ref_def new_TagSet_def Let_def)

text \<open>
  The witness for C3: two orders of the names \<open>a\<close> and \<open>b\<close>.
\<close>

theorem C3_ref_derivation_witness:
  "CHR ''|'' \<notin> set ''a'' \<and> CHR ''|'' \<notin> set ''b''
   \<and> [''a'', ''b''] \<noteq> [''b'', ''a'']
   \<and> namespace (new_TagSet [''a'', ''b'']) \<noteq> namespace (new_TagSet [''b'', ''a''])"
  using C3_ref_derivation [of "[''a'', ''b'']" "''k''" "[''b'', ''a'']"] by simp

text \<open>
  The counterexample to C3 as stated: the sequences \<open>["a|tags:a", "a"]\<close> and
  \<open>["a", "a|tags:a"]\<close> hold the same names in different order, and both join to
  \<open>"tags:a|tags:a|tags:a"\<close>, so their reference keys are the same string.
\<close>

theorem C3_counterexample:
  "[''a|tags:a'', ''a''] \<noteq> [''a'', ''a|tags:a'']
   \<and> ref (new_TagSet [''a|tags:a'', ''a'']) ''k'' = ref (new_TagSet [''a'', ''a|tags:a'']) ''k''"
  by (simp add: ref_def new_TagSet_def Let_def)
section \<open>Properties of MemoryDriver\<close>
subsection \<open>Reading and writing the value object\<close>

lemma object_prototype_names_no_colon: "k \<in> set object_prototype_names \<Longrightarrow> CHR '':'' \<notin> set k"
  by (auto simp: object_prototype_names_def)

text \<open>Nothing is inherited under a name that contains a colon: the tag-index
  keys and the reference keys are such names.\<close>

lemma inherited_colon: "CHR '':'' \<in> set k \<Longrightarrow> inherited p k = JUndefined"
  using object_prototype_names_no_colon [of k]
  by (cases p) (auto simp: object_prototype_property_def)

lemma tags_colon: "take 5 k = ''tags:'' \<Longrightarrow> CHR '':'' \<in> set k"
proof -
  assume "take 5 k = ''tags:''"
  then have "CHR '':'' \<in> set (take 5 k)" by simp
  then show ?thesis by (rule in_set_takeD)
qed

lemma inherited_tags [simp]: "inherited p (''tags:'' @ x) = JUndefined"
  by (rule inherited_colon) simp

lemma ref_colon: "CHR '':'' \<in> set (ref ts k)"
  by (simp add: ref_def)

lemma inherited_ref [simp]: "inherited p (ref ts k) = JUndefined"
  by (rule inherited_colon) (rule ref_colon)

lemma ref_not_proto [simp]: "ref ts k \<noteq> ''__proto__''"
  using ref_colon [of ts k] by auto

lemma inherited_tags_Cons [simp]:
  "inherited p (CHR ''t'' # CHR ''a'' # CHR ''g'' # CHR ''s'' # CHR '':'' # x) = JUndefined"
  by (rule inherited_colon) simp

lemma object_prototype_property_colon:
  "CHR '':'' \<in> set k \<Longrightarrow> object_prototype_property k = JUndefined"
  using inherited_colon [of k ObjectPrototype] by simp

lemma object_prototype_property_tags [simp]:
  "object_prototype_property (CHR ''t'' # CHR ''a'' # CHR ''g'' # CHR ''s'' # CHR '':'' # x) = JUndefined"
  by (rule object_prototype_property_colon) simp

lemma object_prototype_property_ref [simp]: "object_prototype_property (ref ts k) = JUndefined"
  by (rule object_prototype_property_colon) (rule ref_colon)

lemma keys_single [simp]: "keys (new_TagSet [a]) = [''tags:'' @ a]"
  by (simp add: new_TagSet_def Let_def)

lemma ref_not_tags [simp]: "ref (new_TagSet ns) k \<noteq> CHR ''t'' # x"
  by (simp add: ref_def new_TagSet_def Let_def)

lemma tags_not_ref [simp]: "CHR ''t'' # x \<noteq> ref (new_TagSet ns) k"
  using ref_not_tags [of ns k x] by metis

lemma inherited_other:
  "k \<notin> set object_prototype_names \<Longrightarrow> inherited ObjectPrototype k = JUndefined"
  by (simp add: object_prototype_property_def object_prototype_names_def)

lemma lookup_upd [simp]: "lookup p (m(k \<mapsto> v)) k' = (if k' = k then v else lookup p m k')"
  by (simp add: lookup_def)

lemma lookup_del [simp]:
  "lookup p (m(k := None)) k' = (if k' = k then inherited p k else lookup p m k')"
  by (simp add: lookup_def)

lemma lookup_empty [simp]: "lookup p Map.empty k = inherited p k"
  by (simp add: lookup_def)

lemma lookup_own: "m k = Some v \<Longrightarrow> lookup p m k = v"
  by (simp add: lookup_def)

lemma lookup_tags_array:
  "take 5 k = ''tags:'' \<Longrightarrow> lookup p m k = JArr xs \<Longrightarrow> m k = Some (JArr xs)"
  using inherited_colon [OF tags_colon, of k p]
  by (auto simp: lookup_def split: option.splits)

text \<open>Away from \<open>__proto__\<close> a write makes an own property.\<close>

lemma set_property_own:
  "k \<noteq> ''__proto__'' \<Longrightarrow> set_property d k v = d\<lparr> memory := (memory d)(k \<mapsto> v) \<rparr>"
  by (simp add: set_property_def)

lemma set_property_serializer [simp]: "serializer (set_property d k v) = serializer d"
  by (simp add: set_property_def)

lemma set_property_ttl [simp]: "ttl (set_property d k v) = ttl d"
  by (simp add: set_property_def)

subsection \<open>The put callback\<close>

lemma array_indexOf_neg: "(array_indexOf xs r < 0) = (JStr r \<notin> set xs)"
  by (induction xs) (auto simp: strict_equals_def Let_def)

lemma put_index_frame: "k' \<noteq> k \<Longrightarrow> snd (put_index p r k m) k' = m k'"
  by (auto simp: put_index_def Let_def split: jsval.splits)

lemma forEach_put_index_frame:
  "k' \<notin> set ks \<Longrightarrow> snd (forEach_key (put_index p r) ks m) k' = m k'"
proof (induction ks arbitrary: m)
  case Nil
  then show ?case by simp
next
  case (Cons k ks)
  obtain e m' where step: "put_index p r k m = (e, m')" by (cases "put_index p r k m")
  have "m' k' = m k'" using put_index_frame [of k' k p r m] Cons.prems step by simp
  then show ?case using Cons step by (cases e) auto
qed

lemma put_index_ok:
  assumes "index_slot_ok p m k"
  shows "fst (put_index p r k m) = None \<and> is_array (lookup p (snd (put_index p r k m)) k)"
  using assms
  by (cases "lookup p m k") (auto simp: put_index_def index_slot_ok_def Let_def)

lemma put_index_keeps_ok:
  assumes "index_slot_ok p m k'"
  shows "index_slot_ok p (snd (put_index p r k m)) k'"
  using assms
  by (cases "lookup p m k") (auto simp: put_index_def index_slot_ok_def Let_def)


lemma put_untagged:
  "MemoryDriver_put d k v t None = (Resolved (), put_value d k v t)"
  by (simp add: MemoryDriver_put_def)

lemma put_value_memory:
  "k \<noteq> ''__proto__'' \<Longrightarrow> memory (put_value d k v t) = (memory d)(k \<mapsto> Driver_serialize d v)"
  by (simp add: put_value_def set_property_own)

lemma put_value_prototype:
  "k \<noteq> ''__proto__'' \<Longrightarrow> prototype (put_value d k v t) = prototype d"
  by (simp add: put_value_def set_property_own)

lemma put_value_serializer [simp]: "serializer (put_value d k v t) = serializer d"
  by (simp add: put_value_def)

lemma put_serializer [simp]: "serializer (snd (MemoryDriver_put d k v t tagset)) = serializer d"
  by (auto simp: MemoryDriver_put_def split: prod.splits option.splits)

lemma put_prototype_tagged [simp]:
  "prototype (snd (MemoryDriver_put d k v t (Some ts))) = prototype d"
  by (auto simp: MemoryDriver_put_def put_value_prototype split: prod.splits option.splits)


lemma forEach_key_preserves:
  assumes "\<And>k m. P m \<Longrightarrow> P (snd (f k m))" and "P m"
  shows "P (snd (forEach_key f ks m))"
  using assms(2)
proof (induction ks arbitrary: m)
  case Nil
  then show ?case by simp
next
  case (Cons k ks)
  obtain e m' where step: "f k m = (e, m')" by (cases "f k m")
  have "P m'" using assms(1) [OF Cons.prems, of k] step by simp
  then show ?case using Cons.IH [of m'] step by (cases e) auto
qed

lemma forEach_single: "forEach_key f [k] m = f k m"
  by (cases "f k m") (auto split: option.splits)

lemma delete_all_apply:
  "(delete_all xs m) k = (if k \<in> to_string ` set xs then None else m k)"
  unfolding delete_all_def
  by (induction xs arbitrary: m) auto

subsection \<open>Round trip\<close>

text \<open>A put with a tag is rejected, and stores nothing, when the index of the
  tag holds a number: after \<open>put("tags:a", 5)\<close> the index has no \<open>indexOf\<close>.\<close>

lemma tagged_put_blocked:
  "fst (MemoryDriver_put (snd (MemoryDriver_put plain_MemoryDriver ''tags:a'' (JNum 5) None None))
          ''k'' (JNum 1) (Some 60) (Some (new_TagSet [''a''])))
     = Rejected (TypeError ''indexOf is not a function'')
   \<and> MemoryDriver_get
        (snd (MemoryDriver_put (snd (MemoryDriver_put plain_MemoryDriver ''tags:a'' (JNum 5) None None))
                ''k'' (JNum 1) (Some 60) (Some (new_TagSet [''a'']))))
        ''k'' (Some (new_TagSet [''a''])) = JUndefined"
  by (simp add: MemoryDriver_put_def MemoryDriver_get_def put_index_def put_value_def
      set_property_def resolve_key_def plain_MemoryDriver_def new_MemoryDriver_def setInterval_def
      Driver_serialize_def Driver_deserialize_def)




subsection \<open>The sweep\<close>

lemma tick_loop_ttl:
  "i \<le> length (ttl d) \<Longrightarrow>
   ttl (tick_loop i d) = map countdown (filter (\<lambda>e. \<not> expired e) (take i (ttl d))) @ drop i (ttl d)"
proof (induction i arbitrary: d)
  case 0
  then show ?case by simp
next
  case (Suc i)
  then have lt: "i < length (ttl d)" by simp
  show ?case
  proof (cases "entry_ttl (ttl d ! i) \<le> 0")
    case True
    let ?d = "d\<lparr> memory := (memory d)(entry_key (ttl d ! i) := None), ttl := splice1 i (ttl d) \<rparr>"
    have len: "i \<le> length (ttl ?d)" using lt by (simp add: splice1_def)
    have tk: "take i (ttl ?d) = take i (ttl d)" using lt by (simp add: splice1_def)
    have dr: "drop i (ttl ?d) = drop (Suc i) (ttl d)" using lt by (simp add: splice1_def)
    have "ttl (tick_loop (Suc i) d) = ttl (tick_loop i ?d)" using True by simp
    also have "\<dots> = map countdown (filter (\<lambda>e. \<not> expired e) (take i (ttl d))) @ drop (Suc i) (ttl d)"
      using Suc.IH [OF len] tk dr by simp
    finally show ?thesis
      using True lt by (simp add: take_Suc_conv_app_nth expired_def)
  next
    case False
    let ?e = "(ttl d ! i)\<lparr> entry_ttl := entry_ttl (ttl d ! i) - 1 \<rparr>"
    let ?d = "d\<lparr> ttl := (ttl d)[i := ?e] \<rparr>"
    have len: "i \<le> length (ttl ?d)" using lt by simp
    have tk: "take i (ttl ?d) = take i (ttl d)" by simp
    have dr: "drop i (ttl ?d) = ?e # drop (Suc i) (ttl d)"
      using lt by (simp add: upd_conv_take_nth_drop)
    have "ttl (tick_loop (Suc i) d) = ttl (tick_loop i ?d)" using False by simp
    also have "\<dots> = map countdown (filter (\<lambda>e. \<not> expired e) (take i (ttl d))) @ ?e # drop (Suc i) (ttl d)"
      using Suc.IH [OF len] tk dr by simp
    finally show ?thesis
      using False lt by (simp add: take_Suc_conv_app_nth expired_def countdown_def)
  qed
qed

lemma tick_loop_memory:
  "i \<le> length (ttl d) \<Longrightarrow>
   memory (tick_loop i d) k =
     (if \<exists>e \<in> set (take i (ttl d)). entry_key e = k \<and> expired e then None else memory d k)"
proof (induction i arbitrary: d)
  case 0
  then show ?case by simp
next
  case (Suc i)
  then have lt: "i < length (ttl d)" by simp
  show ?case
  proof (cases "entry_ttl (ttl d ! i) \<le> 0")
    case True
    let ?d = "d\<lparr> memory := (memory d)(entry_key (ttl d ! i) := None), ttl := splice1 i (ttl d) \<rparr>"
    have len: "i \<le> length (ttl ?d)" using lt by (simp add: splice1_def)
    have tk: "take i (ttl ?d) = take i (ttl d)" using lt by (simp add: splice1_def)
    have "memory (tick_loop (Suc i) d) k = memory (tick_loop i ?d) k" using True by simp
    also have "\<dots> = (if \<exists>e \<in> set (take i (ttl d)). entry_key e = k \<and> expired e then None
                        else memory ?d k)"
      using Suc.IH [OF len] tk by simp
    finally show ?thesis
      using True lt by (auto simp: take_Suc_conv_app_nth expired_def)
  next
    case False
    let ?e = "(ttl d ! i)\<lparr> entry_ttl := entry_ttl (ttl d ! i) - 1 \<rparr>"
    let ?d = "d\<lparr> ttl := (ttl d)[i := ?e] \<rparr>"
    have len: "i \<le> length (ttl ?d)" using lt by simp
    have tk: "take i (ttl ?d) = take i (ttl d)" by simp
    have "memory (tick_loop (Suc i) d) k = memory (tick_loop i ?d) k" using False by simp
    also have "\<dots> = (if \<exists>e \<in> set (take i (ttl d)). entry_key e = k \<and> expired e then None
                        else memory ?d k)"
      using Suc.IH [OF len] tk by simp
    finally show ?thesis
      using False lt by (auto simp: take_Suc_conv_app_nth expired_def)
  qed
qed

lemma tick_loop_serializer: "serializer (tick_loop i d) = serializer d"
  by (induction i arbitrary: d) auto

lemma tick_loop_prototype: "prototype (tick_loop i d) = prototype d"
  by (induction i arbitrary: d) auto

lemma tick_serializer [simp]: "serializer (tick d) = serializer d"
  by (simp add: tick_def tick_loop_serializer)

lemma tick_prototype [simp]: "prototype (tick d) = prototype d"
  by (simp add: tick_def tick_loop_prototype)

lemma ttl_tick: "ttl (tick d) = map countdown (filter (\<lambda>e. \<not> expired e) (ttl d))"
  by (simp add: tick_def tick_loop_ttl)

lemma memory_tick:
  "memory (tick d) k = (if \<exists>e \<in> set (ttl d). entry_key e = k \<and> expired e then None else memory d k)"
  by (simp add: tick_def tick_loop_memory)

lemma serializer_ticks: "serializer (ticks n d) = serializer d"
  by (induction n arbitrary: d) auto

lemma prototype_ticks: "prototype (ticks n d) = prototype d"
  by (induction n arbitrary: d) auto

lemma ticks_add: "ticks (a + b) d = ticks b (ticks a d)"
  by (induction a arbitrary: d) auto

lemma counting_tick:
  assumes "counting k sv c d" and "0 < c"
  shows "counting k sv (c - 1) (tick d)"
proof -
  have "memory (tick d) k = Some sv"
    using assms by (auto simp: memory_tick counting_def expired_def)
  moreover have "\<exists>e \<in> set (ttl (tick d)). entry_key e = k"
  proof -
    obtain e where "e \<in> set (ttl d)" "entry_key e = k" using assms(1) by (auto simp: counting_def)
    moreover then have "\<not> expired e" using assms by (auto simp: counting_def expired_def)
    ultimately have "countdown e \<in> set (ttl (tick d))" "entry_key (countdown e) = k"
      by (auto simp: ttl_tick countdown_def)
    then show ?thesis by blast
  qed
  moreover have "\<forall>e \<in> set (ttl (tick d)). entry_key e = k \<longrightarrow> entry_ttl e = c - 1"
    using assms(1) by (auto simp: ttl_tick countdown_def counting_def)
  ultimately show ?thesis by (simp add: counting_def)
qed

lemma counting_ticks:
  "counting k sv c d \<Longrightarrow> int j \<le> c \<Longrightarrow> counting k sv (c - int j) (ticks j d)"
proof (induction j arbitrary: c d)
  case 0
  then show ?case by simp
next
  case (Suc j)
  have "counting k sv (c - 1) (tick d)" using counting_tick [of k sv c d] Suc.prems by simp
  from Suc.IH [OF this] Suc.prems(2) show ?case by (simp add: algebra_simps)
qed

lemma counting_zero_tick: "counting k sv 0 d \<Longrightarrow> gone k (tick d)"
  by (auto simp: counting_def gone_def memory_tick ttl_tick expired_def countdown_def)

lemma gone_tick: "gone k d \<Longrightarrow> gone k (tick d)"
  by (auto simp: gone_def memory_tick ttl_tick countdown_def)

lemma gone_ticks: "gone k d \<Longrightarrow> gone k (ticks j d)"
  by (induction j arbitrary: d) (auto simp: gone_tick)

lemma put_counting:
  assumes "0 < N" and "k \<notin> entry_key ` set (ttl d)" and "k \<noteq> ''__proto__''"
  shows "counting k (Driver_serialize d v) N (snd (MemoryDriver_put d k v (Some N) None))"
  using assms
  by (auto simp: put_untagged put_value_def set_property_own counting_def Driver_serialize_def)

text \<open>
  Claim C6, as amended. Take a driver whose value object has its original
  prototype and whose roster holds no entry for \<open>k\<close>, and a key \<open>k\<close> that is
  not the name of a property of \<open>Object.prototype\<close>. After \<open>put(k, v, N)\<close> with
  a positive integer \<open>N\<close> the entry is retrievable by \<open>get(k)\<close> after each of
  the first \<open>N\<close> sweep ticks, and absent after tick \<open>N + 1\<close> and every tick
  thereafter: \<open>tick\<close> evicts an entry whose counter is already zero when the
  tick starts.
\<close>

theorem C6_expiration:
  assumes "0 < N" and "k \<notin> entry_key ` set (ttl d)"
      and "prototype d = ObjectPrototype" and "k \<notin> set object_prototype_names"
  shows "(int j \<le> N \<longrightarrow>
            memory (ticks j (snd (MemoryDriver_put d k v (Some N) None))) k = Some (Driver_serialize d v)
          \<and> MemoryDriver_get (ticks j (snd (MemoryDriver_put d k v (Some N) None))) k None
              = Driver_deserialize d (Driver_serialize d v))
     \<and> (N < int j \<longrightarrow>
            memory (ticks j (snd (MemoryDriver_put d k v (Some N) None))) k = None
          \<and> \<not> MemoryDriver_has (ticks j (snd (MemoryDriver_put d k v (Some N) None))) k None
          \<and> MemoryDriver_get (ticks j (snd (MemoryDriver_put d k v (Some N) None))) k None
              = Driver_deserialize d JUndefined)"
proof -
  define d1 where "d1 = snd (MemoryDriver_put d k v (Some N) None)"
  have k: "k \<noteq> ''__proto__''"
    using assms(4) by (auto simp: object_prototype_names_def)
  have start: "counting k (Driver_serialize d v) N d1"
    unfolding d1_def using assms(1,2) k by (rule put_counting)
  have ser: "serializer (ticks j d1) = serializer d"
    by (simp add: serializer_ticks d1_def)
  have proto: "prototype (ticks j d1) = ObjectPrototype"
    using assms(3) k by (simp add: prototype_ticks d1_def put_untagged put_value_prototype)
  have not_inherited: "inherited ObjectPrototype k = JUndefined"
    using assms(4) by (rule inherited_other)
  have early: "memory (ticks j d1) k = Some (Driver_serialize d v)" if "int j \<le> N"
    using counting_ticks [OF start that] by (simp add: counting_def)
  have late: "memory (ticks j d1) k = None" if "N < int j"
  proof -
    have "counting k (Driver_serialize d v) 0 (ticks (nat N) d1)"
      using counting_ticks [OF start, of "nat N"] assms(1) by simp
    then have "gone k (ticks 1 (ticks (nat N) d1))" by (simp add: counting_zero_tick)
    then have "gone k (ticks (j - nat N - 1) (ticks 1 (ticks (nat N) d1)))" by (rule gone_ticks)
    moreover have "j = nat N + (1 + (j - nat N - 1))" using that assms(1) by linarith
    ultimately have "gone k (ticks j d1)"
      using ticks_add [of "nat N" "1 + (j - nat N - 1)" d1] ticks_add [of 1 "j - nat N - 1" "ticks (nat N) d1"]
      by simp
    then show ?thesis by (simp add: gone_def)
  qed
  have read_early: "lookup (prototype (ticks j d1)) (memory (ticks j d1)) k = Driver_serialize d v"
    if "int j \<le> N"
    using early [OF that] by (simp add: lookup_def)
  have read_late: "lookup (prototype (ticks j d1)) (memory (ticks j d1)) k = JUndefined"
    if "N < int j"
    using late [OF that] proto not_inherited by (simp add: lookup_def)
  have des: "Driver_deserialize (ticks j d1) x = Driver_deserialize d x" for x
    using ser by (simp add: Driver_deserialize_def)
  show ?thesis
    using early late read_early read_late unfolding d1_def [symmetric]
    by (simp add: MemoryDriver_get_def MemoryDriver_has_def resolve_key_def des strict_equals_def)
qed

text \<open>
  The witness for C6: \<open>put("k", 7, 2)\<close> on a driver as constructed with the
  decimal serializer, read after two ticks and after three.
\<close>

theorem C6_expiration_witness:
  "(0::int) < 2
   \<and> ''k'' \<notin> entry_key ` set (ttl decimal_MemoryDriver)
   \<and> prototype decimal_MemoryDriver = ObjectPrototype
   \<and> ''k'' \<notin> set object_prototype_names
   \<and> memory (ticks 2 (snd (MemoryDriver_put decimal_MemoryDriver ''k'' (JNum 7) (Some 2) None))) ''k''
        = Some (JStr ''7'')
   \<and> MemoryDriver_get (ticks 2 (snd (MemoryDriver_put decimal_MemoryDriver ''k'' (JNum 7) (Some 2) None)))
        ''k'' None = JNum 7
   \<and> memory (ticks 3 (snd (MemoryDriver_put decimal_MemoryDriver ''k'' (JNum 7) (Some 2) None))) ''k''
        = None
   \<and> \<not> MemoryDriver_has (ticks 3 (snd (MemoryDriver_put decimal_MemoryDriver ''k'' (JNum 7) (Some 2) None)))
        ''k'' None
   \<and> MemoryDriver_get (ticks 3 (snd (MemoryDriver_put decimal_MemoryDriver ''k'' (JNum 7) (Some 2) None)))
        ''k'' None = JUndefined"
proof -
  have codec: "serialize decimal_Serializer (JNum 7) = JStr ''7''"
      "deserialize decimal_Serializer (JStr ''7'') = JNum 7"
      "deserialize decimal_Serializer JUndefined = JUndefined"
    by (simp_all add: decimal_Serializer_def show_int_def show_nat.simps digit_char_def
        string_to_number_def trim_def is_space_def unsigned_to_number_def is_digit_def
        digits_value_def)
  have d: "serializer decimal_MemoryDriver = Some decimal_Serializer"
      "prototype decimal_MemoryDriver = ObjectPrototype"
      "ttl decimal_MemoryDriver = []"
    by (simp_all add: decimal_MemoryDriver_def new_MemoryDriver_def setInterval_def)
  have k: "''k'' \<notin> set object_prototype_names"
    by (simp add: object_prototype_names_def)
  show ?thesis
    using C6_expiration [where N = 2 and k = "''k''" and d = decimal_MemoryDriver and v = "JNum 7" and j = 2]
      C6_expiration [where N = 2 and k = "''k''" and d = decimal_MemoryDriver and v = "JNum 7" and j = 3]
      codec d k
    by (simp add: Driver_deserialize_def Driver_serialize_def)
qed

text \<open>
  The counterexample to C6 as stated: after \<open>put("k", 7, 1)\<close> on a driver as
  constructed, the entry is still there after the first sweep tick.
\<close>

theorem C6_counterexample:
  "MemoryDriver_has
     (ticks (Suc 0) (snd (MemoryDriver_put plain_MemoryDriver ''k'' (JNum 7) (Some 1) None)))
     ''k'' None
   \<and> MemoryDriver_get
       (ticks (Suc 0) (snd (MemoryDriver_put plain_MemoryDriver ''k'' (JNum 7) (Some 1) None)))
       ''k'' None = JNum 7"
  by (simp add: MemoryDriver_has_def MemoryDriver_get_def resolve_key_def lookup_def memory_tick
      expired_def put_untagged put_value_def set_property_def plain_MemoryDriver_def
      new_MemoryDriver_def setInterval_def Driver_deserialize_def Driver_serialize_def
      strict_equals_def)

subsection \<open>Drivers whose history respects the reserved keys\<close>

lemma putMany_serializer [simp]:
  "serializer (snd (MemoryDriver_putMany d items t tagset)) = serializer d"
proof (induction items arbitrary: d)
  case Nil
  then show ?case by simp
next
  case (Cons item items)
  obtain r d' where step: "MemoryDriver_put d (fst item) (snd item) t tagset = (r, d')"
    by (cases "MemoryDriver_put d (fst item) (snd item) t tagset")
  obtain r' d'' where rest: "MemoryDriver_putMany d' items t tagset = (r', d'')"
    by (cases "MemoryDriver_putMany d' items t tagset")
  have "serializer d' = serializer d" using put_serializer [of d "fst item" "snd item" t tagset] step by simp
  moreover have "serializer d'' = serializer d'" using Cons.IH [of d'] rest by simp
  ultimately show ?case using step rest by (cases r) simp_all
qed

lemma increment_serializer [simp]:
  "serializer (snd (MemoryDriver_increment d k a tagset)) = serializer d"
  by (simp add: MemoryDriver_increment_def Let_def)

lemma decrement_serializer [simp]:
  "serializer (snd (MemoryDriver_decrement d k a tagset)) = serializer d"
  by (simp add: MemoryDriver_decrement_def Let_def)

lemma forget_serializer [simp]: "serializer (snd (MemoryDriver_forget d k tagset)) = serializer d"
  by (auto simp: MemoryDriver_forget_def forget_value_def Let_def split: prod.splits option.splits)

lemma flush_serializer [simp]: "serializer (snd (MemoryDriver_flush d tagset)) = serializer d"
  by (auto simp: MemoryDriver_flush_def split: prod.splits option.splits)

lemma run_call_serializer [simp]: "serializer (run_call d c) = serializer d"
  by (cases c) (simp_all add: MemoryDriver_forever_def)

lemma run_calls_serializer [simp]: "serializer (run_calls d cs) = serializer d"
  by (induction cs arbitrary: d) simp_all

lemma driver_after_serializer [simp]: "serializer (driver_after options rt cs) = serializer options"
  by (simp add: driver_after_def new_MemoryDriver_def split: prod.splits)

text \<open>The steps that keep the indexes intact: a write or a delete of an own
  property outside the reserved keys, a delete of any own property, and the three
  callbacks that work on an index.\<close>

lemma slot_ok_upd_other:
  "index_slot_ok p m k \<Longrightarrow> k' \<noteq> k \<Longrightarrow> index_slot_ok p (m(k' \<mapsto> v)) k"
  by (simp add: index_slot_ok_def)

lemma slot_ok_del:
  "index_slot_ok p m k \<Longrightarrow> take 5 k = ''tags:'' \<Longrightarrow> index_slot_ok p (m(k' := None)) k"
  using inherited_colon [OF tags_colon, of k p]
  by (auto simp: index_slot_ok_def)

lemma slot_ok_delete_all:
  "index_slot_ok p m k \<Longrightarrow> take 5 k = ''tags:'' \<Longrightarrow> index_slot_ok p (delete_all xs m) k"
  unfolding delete_all_def
  by (induction xs arbitrary: m) (simp_all add: slot_ok_del)

lemma intact_write:
  assumes "indexes_intact d" and "\<not> reserved k"
  shows "indexes_intact (set_property d k v)"
  using assms
  by (auto simp: indexes_intact_def reserved_def set_property_own intro!: slot_ok_upd_other)

lemma intact_write_ref:
  assumes "indexes_intact d"
  shows "indexes_intact (set_property d (ref (new_TagSet ns) k) v)"
proof -
  have "\<not> reserved (ref (new_TagSet ns) k)"
    using sha1_hex_Cons [of "namespace (new_TagSet ns)"]
    by (auto simp: reserved_def ref_def new_TagSet_def Let_def)
  with assms show ?thesis by (rule intact_write)
qed

lemma forget_index_keeps_ok:
  assumes "index_slot_ok p m k'"
  shows "index_slot_ok p (snd (forget_index p r k m)) k'"
  using assms
  by (cases "lookup p m k") (auto simp: forget_index_def index_slot_ok_def Let_def)

lemma flush_index_keeps_ok:
  assumes "index_slot_ok p m k'" and "take 5 k' = ''tags:''"
  shows "index_slot_ok p (snd (flush_index p k m)) k'"
  using assms
  by (cases "lookup p m k")
     (auto simp: flush_index_def intro!: slot_ok_del slot_ok_delete_all)

text \<open>The indexes of a map, for a fixed prototype.\<close>

lemma intact_memory:
  assumes "indexes_intact d"
      and "\<And>k. take 5 k = ''tags:'' \<Longrightarrow> index_slot_ok (prototype d) (memory d) k
                \<Longrightarrow> index_slot_ok (prototype d) m k"
  shows "indexes_intact (d\<lparr> memory := m \<rparr>)"
  using assms by (auto simp: indexes_intact_def)

lemma intact_ttl [simp]: "indexes_intact (d\<lparr> ttl := x \<rparr>) = indexes_intact d"
  by (simp add: indexes_intact_def)

lemma intact_forEach:
  assumes "indexes_intact d"
      and "\<And>k k' m. take 5 k' = ''tags:'' \<Longrightarrow> index_slot_ok (prototype d) m k'
                \<Longrightarrow> index_slot_ok (prototype d) (snd (f k m)) k'"
  shows "indexes_intact (d\<lparr> memory := snd (forEach_key f ks (memory d)) \<rparr>)"
proof -
  have "\<forall>k'. take 5 k' = ''tags:'' \<longrightarrow>
          index_slot_ok (prototype d) (snd (forEach_key f ks (memory d))) k'"
    by (rule forEach_key_preserves
          [where P = "\<lambda>m. \<forall>k'. take 5 k' = ''tags:'' \<longrightarrow> index_slot_ok (prototype d) m k'"])
       (use assms in \<open>auto simp: indexes_intact_def\<close>)
  then show ?thesis using assms(1) by (auto simp: indexes_intact_def)
qed

lemma slot_ok_absent: "take 5 k = ''tags:'' \<Longrightarrow> m k = None \<Longrightarrow> index_slot_ok p m k"
  using inherited_colon [OF tags_colon, of k p]
  by (simp add: index_slot_ok_def lookup_def)

lemma intact_new: "indexes_intact (fst (new_MemoryDriver options rt))"
  by (simp add: indexes_intact_def new_MemoryDriver_def setInterval_def slot_ok_absent)

lemma intact_put_value:
  "indexes_intact d \<Longrightarrow> \<not> reserved k \<Longrightarrow> indexes_intact (put_value d k v t)"
  by (simp add: put_value_def intact_write)

lemma intact_put_value_ref:
  "indexes_intact d \<Longrightarrow> indexes_intact (put_value d (ref (new_TagSet ns) k) v t)"
  by (simp add: put_value_def intact_write_ref)

lemma intact_put_tagged:
  assumes "indexes_intact d"
  shows "indexes_intact (snd (MemoryDriver_put d k v t (Some (new_TagSet ns))))"
proof -
  let ?f = "put_index (prototype d) (ref (new_TagSet ns) k)"
  obtain e m where loop: "forEach_key ?f (keys (new_TagSet ns)) (memory d) = (e, m)"
    by (cases "forEach_key ?f (keys (new_TagSet ns)) (memory d)")
  have "indexes_intact (d\<lparr> memory := snd (forEach_key ?f (keys (new_TagSet ns)) (memory d)) \<rparr>)"
    using assms by (rule intact_forEach) (rule put_index_keeps_ok)
  then have m: "indexes_intact (d\<lparr> memory := m \<rparr>)" using loop by simp
  show ?thesis
  proof (cases e)
    case None
    then show ?thesis
      using loop intact_put_value_ref [OF m] by (simp add: MemoryDriver_put_def)
  next
    case (Some err)
    then show ?thesis using loop m by (simp add: MemoryDriver_put_def)
  qed
qed

lemma intact_put:
  assumes "indexes_intact d" and "nso = None \<longrightarrow> \<not> reserved k"
  shows "indexes_intact (snd (MemoryDriver_put d k v t (map_option new_TagSet nso)))"
  using assms by (cases nso) (simp_all add: put_untagged intact_put_value intact_put_tagged)

lemma intact_putMany:
  "indexes_intact d \<Longrightarrow> nso = None \<longrightarrow> list_all (\<lambda>item. \<not> reserved (fst item)) items \<Longrightarrow>
   indexes_intact (snd (MemoryDriver_putMany d items t (map_option new_TagSet nso)))"
proof (induction items arbitrary: d)
  case Nil
  then show ?case by simp
next
  case (Cons item items)
  let ?ts = "map_option new_TagSet nso"
  obtain r d' where step: "MemoryDriver_put d (fst item) (snd item) t ?ts = (r, d')"
    by (cases "MemoryDriver_put d (fst item) (snd item) t ?ts")
  obtain r' d'' where rest: "MemoryDriver_putMany d' items t ?ts = (r', d'')"
    by (cases "MemoryDriver_putMany d' items t ?ts")
  have "indexes_intact d'"
    using intact_put [of d nso "fst item" "snd item" t] Cons.prems step by simp
  then have "indexes_intact d''" using Cons.IH [of d'] Cons.prems(2) rest by simp
  then show ?case using step rest by (cases r) simp_all
qed

lemma not_reserved_resolve:
  "nso = None \<longrightarrow> \<not> reserved k \<Longrightarrow> \<not> reserved (resolve_key (map_option new_TagSet nso) k)"
  using sha1_hex_Cons [of "namespace (new_TagSet (the nso))"]
  by (cases nso) (auto simp: resolve_key_def reserved_def ref_def new_TagSet_def Let_def)

lemma intact_increment:
  assumes "indexes_intact d" and "nso = None \<longrightarrow> \<not> reserved k"
  shows "indexes_intact (snd (MemoryDriver_increment d k a (map_option new_TagSet nso)))"
  using assms(1) not_reserved_resolve [OF assms(2)]
  by (simp add: MemoryDriver_increment_def Let_def intact_write)

lemma intact_decrement:
  assumes "indexes_intact d" and "nso = None \<longrightarrow> \<not> reserved k"
  shows "indexes_intact (snd (MemoryDriver_decrement d k a (map_option new_TagSet nso)))"
  using assms(1) not_reserved_resolve [OF assms(2)]
  by (simp add: MemoryDriver_decrement_def Let_def intact_write)

lemma intact_forget_value: "indexes_intact d \<Longrightarrow> indexes_intact (forget_value d k)"
  by (auto simp: forget_value_def Let_def indexes_intact_def intro!: slot_ok_del)

lemma intact_forget:
  assumes "indexes_intact d"
  shows "indexes_intact (snd (MemoryDriver_forget d k tagset))"
proof (cases tagset)
  case None
  then show ?thesis using assms by (simp add: MemoryDriver_forget_def intact_forget_value)
next
  case (Some ts)
  let ?f = "forget_index (prototype d) (ref ts k)"
  obtain e m where loop: "forEach_key ?f (keys ts) (memory d) = (e, m)"
    by (cases "forEach_key ?f (keys ts) (memory d)")
  have "indexes_intact (d\<lparr> memory := snd (forEach_key ?f (keys ts) (memory d)) \<rparr>)"
    using assms by (rule intact_forEach) (rule forget_index_keeps_ok)
  then have m: "indexes_intact (d\<lparr> memory := m \<rparr>)" using loop by simp
  show ?thesis
    using Some loop m intact_forget_value [OF m]
    by (cases e) (simp_all add: MemoryDriver_forget_def)
qed

lemma intact_flush:
  assumes "indexes_intact d"
  shows "indexes_intact (snd (MemoryDriver_flush d tagset))"
proof (cases tagset)
  case None
  then show ?thesis
    by (simp add: MemoryDriver_flush_def indexes_intact_def slot_ok_absent)
next
  case (Some ts)
  let ?f = "flush_index (prototype d)"
  obtain e m where loop: "forEach_key ?f (keys ts) (memory d) = (e, m)"
    by (cases "forEach_key ?f (keys ts) (memory d)")
  have "indexes_intact (d\<lparr> memory := snd (forEach_key ?f (keys ts) (memory d)) \<rparr>)"
    using assms by (rule intact_forEach) (rule flush_index_keeps_ok)
  then have m: "indexes_intact (d\<lparr> memory := m \<rparr>)" using loop by simp
  show ?thesis
    using Some loop m by (cases e) (simp_all add: MemoryDriver_flush_def)
qed

lemma intact_tick:
  assumes "indexes_intact d"
  shows "indexes_intact (tick d)"
proof -
  have "index_slot_ok (prototype d) (memory (tick d)) k" if "take 5 k = ''tags:''" for k
  proof (cases "\<exists>e \<in> set (ttl d). entry_key e = k \<and> expired e")
    case True
    then have "memory (tick d) k = None" using memory_tick [of d k] by auto
    with that show ?thesis by (rule slot_ok_absent)
  next
    case False
    then have same: "memory (tick d) k = memory d k" using memory_tick [of d k] by auto
    have "index_slot_ok (prototype d) (memory d) k"
      using assms that unfolding indexes_intact_def by blast
    then show ?thesis using same by (simp add: index_slot_ok_def lookup_def)
  qed
  then show ?thesis using assms by (auto simp: indexes_intact_def)
qed

lemma intact_run_call:
  assumes "indexes_intact d" and "respectful c"
  shows "indexes_intact (run_call d c)"
proof (cases c)
  case (Call_put k v t nso)
  have "nso = None \<longrightarrow> \<not> reserved k" using assms(2) Call_put by (cases nso) simp_all
  then show ?thesis using Call_put intact_put [OF assms(1)] by simp
next
  case (Call_putMany items t nso)
  have "nso = None \<longrightarrow> list_all (\<lambda>item. \<not> reserved (fst item)) items"
    using assms(2) Call_putMany by (cases nso) simp_all
  then show ?thesis using Call_putMany intact_putMany [OF assms(1)] by simp
next
  case (Call_increment k a nso)
  have "nso = None \<longrightarrow> \<not> reserved k" using assms(2) Call_increment by (cases nso) simp_all
  then show ?thesis using Call_increment intact_increment [OF assms(1)] by simp
next
  case (Call_decrement k a nso)
  have "nso = None \<longrightarrow> \<not> reserved k" using assms(2) Call_decrement by (cases nso) simp_all
  then show ?thesis using Call_decrement intact_decrement [OF assms(1)] by simp
next
  case (Call_forever k v nso)
  have "nso = None \<longrightarrow> \<not> reserved k" using assms(2) Call_forever by (cases nso) simp_all
  then show ?thesis
    using Call_forever intact_put [OF assms(1)] by (simp add: MemoryDriver_forever_def)
next
  case (Call_forget k nso)
  then show ?thesis using assms by (simp add: intact_forget)
next
  case (Call_flush nso)
  then show ?thesis using assms by (simp add: intact_flush)
next
  case Call_tick
  then show ?thesis using assms by (simp add: intact_tick)
qed

lemma intact_run_calls:
  "indexes_intact d \<Longrightarrow> list_all respectful cs \<Longrightarrow> indexes_intact (run_calls d cs)"
  by (induction cs arbitrary: d) (simp_all add: intact_run_call)

text \<open>A driver whose history respects the reserved keys has its indexes
  intact.\<close>

lemma intact_driver_after:
  "list_all respectful cs \<Longrightarrow> indexes_intact (driver_after options rt cs)"
  unfolding driver_after_def by (rule intact_run_calls [OF intact_new])

lemma intact_slot:
  assumes "indexes_intact d"
  shows "index_slot_ok (prototype d) (memory d) (''tags:'' @ x)"
proof -
  have "\<forall>k. take 5 k = ''tags:'' \<longrightarrow> index_slot_ok (prototype d) (memory d) k"
    using assms unfolding indexes_intact_def by blast
  then show ?thesis by simp
qed

subsection \<open>Tag isolation\<close>

lemma flush_index_frame:
  assumes "k' \<noteq> kb" and "\<forall>xs. lookup p m kb = JArr xs \<longrightarrow> k' \<notin> to_string ` set xs"
  shows "snd (flush_index p kb m) k' = m k'"
  using assms
  by (cases "lookup p m kb") (auto simp: flush_index_def delete_all_apply)

lemma flush_index_ok:
  assumes "index_slot_ok p m k"
  shows "fst (flush_index p k m) = None"
  using assms
  by (cases "lookup p m k") (auto simp: flush_index_def index_slot_ok_def)

lemma put_index_listed:
  assumes "put_index p r k m = (None, m1)" and "index_slot_ok p m k"
  shows "\<exists>xs. lookup p m1 k = JArr xs \<and> JStr r \<in> set xs"
  using assms
  by (cases "lookup p m k")
     (auto simp: put_index_def index_slot_ok_def Let_def array_indexOf_neg split: if_splits)

text \<open>
  Claim C1, as amended. Take a driver whose history respects the reserved keys,
  and the TagSets \<open>A\<close> and \<open>B\<close> of two different single tags \<open>a\<close> and
  \<open>b\<close>, such that the index \<open>"tags:" + b\<close> does not list \<open>A.ref(k)\<close>. Then
  \<open>put(k, v, ttl, A)\<close> resolves; after it a \<open>flush(B)\<close> resolves and leaves
  \<open>get(k, A)\<close> as it was; and a \<open>flush(A)\<close> resolves, after which
  \<open>has(k, A)\<close> is false and \<open>get(k, A)\<close> returns what it returns for an absent
  entry, the deserialized \<open>undefined\<close>.
\<close>

theorem C1_tag_isolation:
  assumes "list_all respectful cs"
      and "d = driver_after options rt cs"
      and "a \<noteq> b"
      and "ref (new_TagSet [a]) k \<notin> set (index_refs d (''tags:'' @ b))"
  shows "fst (MemoryDriver_put d k v t (Some (new_TagSet [a]))) = Resolved ()
     \<and> fst (MemoryDriver_flush (snd (MemoryDriver_put d k v t (Some (new_TagSet [a]))))
              (Some (new_TagSet [b]))) = Resolved ()
     \<and> MemoryDriver_get
          (snd (MemoryDriver_flush (snd (MemoryDriver_put d k v t (Some (new_TagSet [a]))))
                  (Some (new_TagSet [b])))) k (Some (new_TagSet [a]))
         = MemoryDriver_get (snd (MemoryDriver_put d k v t (Some (new_TagSet [a])))) k
             (Some (new_TagSet [a]))
     \<and> fst (MemoryDriver_flush (snd (MemoryDriver_put d k v t (Some (new_TagSet [a]))))
              (Some (new_TagSet [a]))) = Resolved ()
     \<and> \<not> MemoryDriver_has
            (snd (MemoryDriver_flush (snd (MemoryDriver_put d k v t (Some (new_TagSet [a]))))
                    (Some (new_TagSet [a])))) k (Some (new_TagSet [a]))
     \<and> MemoryDriver_get
          (snd (MemoryDriver_flush (snd (MemoryDriver_put d k v t (Some (new_TagSet [a]))))
                  (Some (new_TagSet [a])))) k (Some (new_TagSet [a]))
         = (case serializer options of None \<Rightarrow> JUndefined | Some z \<Rightarrow> deserialize z JUndefined)"
proof -
  define r where "r = ref (new_TagSet [a]) k"
  define p where "p = prototype d"
  define d1 where "d1 = snd (MemoryDriver_put d k v t (Some (new_TagSet [a])))"
  have intact: "indexes_intact d"
    unfolding assms(2) using assms(1) by (rule intact_driver_after)
  have ser: "serializer d = serializer options"
    by (simp add: assms(2))
  have slot_a: "index_slot_ok p (memory d) (''tags:'' @ a)"
    and slot_b: "index_slot_ok p (memory d) (''tags:'' @ b)"
    unfolding p_def using intact by (rule intact_slot)+
  \<comment> \<open>the put\<close>
  obtain e m1 where m1: "put_index p r (''tags:'' @ a) (memory d) = (e, m1)"
    by (cases "put_index p r (''tags:'' @ a) (memory d)")
  have e: "e = None" using put_index_ok [OF slot_a, of r] m1 by simp
  have put: "MemoryDriver_put d k v t (Some (new_TagSet [a]))
      = (Resolved (), put_value (d\<lparr>memory := m1\<rparr>) r v t)"
    using m1 e by (simp add: MemoryDriver_put_def forEach_single r_def p_def)
  have d1: "d1 = put_value (d\<lparr>memory := m1\<rparr>) r v t"
    by (simp add: d1_def put)
  have r_a: "r \<noteq> ''tags:'' @ a" and r_b: "r \<noteq> ''tags:'' @ b" and r_p: "r \<noteq> ''__proto__''"
    unfolding r_def by simp_all
  have inh_r: "inherited q r = JUndefined" for q
    unfolding r_def by simp
  have mem1: "memory d1 = m1(r \<mapsto> Driver_serialize d v)"
    using r_p by (simp add: d1 put_value_memory Driver_serialize_def)
  have ser1: "serializer d1 = serializer d" and proto1: "prototype d1 = p"
    using r_p by (simp_all add: d1 put_value_prototype p_def)
  have m1_b: "m1 (''tags:'' @ b) = memory d (''tags:'' @ b)"
    using put_index_frame [of "''tags:'' @ b" "''tags:'' @ a" p r "memory d"] m1 assms(3) by simp
  have look_b: "lookup p (memory d1) (''tags:'' @ b) = lookup p (memory d) (''tags:'' @ b)"
    using m1_b r_b by (simp add: mem1 lookup_def)
  have look_a: "lookup p (memory d1) (''tags:'' @ a) = lookup p m1 (''tags:'' @ a)"
    using r_a by (simp add: mem1 lookup_def)
  \<comment> \<open>flush of the other tag\<close>
  have "index_slot_ok p (memory d1) (''tags:'' @ b)"
    using slot_b look_b by (simp add: index_slot_ok_def)
  then have noneB: "fst (flush_index p (''tags:'' @ b) (memory d1)) = None"
    by (rule flush_index_ok)
  have "\<forall>xs. lookup p (memory d1) (''tags:'' @ b) = JArr xs \<longrightarrow> r \<notin> to_string ` set xs"
    using assms(4) look_b by (auto simp: index_refs_def r_def p_def)
  then have "snd (flush_index p (''tags:'' @ b) (memory d1)) r = memory d1 r"
    using r_b by (intro flush_index_frame)
  then have flushB: "fst (MemoryDriver_flush d1 (Some (new_TagSet [b]))) = Resolved ()"
      "memory (snd (MemoryDriver_flush d1 (Some (new_TagSet [b])))) r = memory d1 r"
      "prototype (snd (MemoryDriver_flush d1 (Some (new_TagSet [b])))) = prototype d1"
    using noneB
    by (auto simp: MemoryDriver_flush_def forEach_single proto1 split: prod.splits option.splits)
  have part1: "MemoryDriver_get (snd (MemoryDriver_flush d1 (Some (new_TagSet [b])))) k (Some (new_TagSet [a]))
      = MemoryDriver_get d1 k (Some (new_TagSet [a]))"
    using flushB(2,3)
    by (simp add: MemoryDriver_get_def resolve_key_def r_def [symmetric] Driver_deserialize_def
        lookup_def)
  \<comment> \<open>flush of the entry's own tag\<close>
  obtain xs where xs: "lookup p m1 (''tags:'' @ a) = JArr xs" "JStr r \<in> set xs"
    using put_index_listed [OF _ slot_a, of r m1] m1 e by auto
  have noneA: "fst (flush_index p (''tags:'' @ a) (memory d1)) = None"
    using xs(1) look_a by (simp add: flush_index_def)
  have "r \<in> to_string ` set xs" using xs(2) by force
  then have "snd (flush_index p (''tags:'' @ a) (memory d1)) r = None"
    using xs(1) look_a r_a by (simp add: flush_index_def delete_all_apply)
  then have flushA: "fst (MemoryDriver_flush d1 (Some (new_TagSet [a]))) = Resolved ()"
      "memory (snd (MemoryDriver_flush d1 (Some (new_TagSet [a])))) r = None"
    using noneA
    by (auto simp: MemoryDriver_flush_def forEach_single proto1 split: prod.splits option.splits)
  have part3: "\<not> MemoryDriver_has (snd (MemoryDriver_flush d1 (Some (new_TagSet [a])))) k (Some (new_TagSet [a]))"
      "MemoryDriver_get (snd (MemoryDriver_flush d1 (Some (new_TagSet [a])))) k (Some (new_TagSet [a]))
        = (case serializer options of None \<Rightarrow> JUndefined | Some z \<Rightarrow> deserialize z JUndefined)"
    using flushA(2) ser ser1 inh_r
    by (simp_all add: MemoryDriver_get_def MemoryDriver_has_def resolve_key_def r_def [symmetric]
        Driver_deserialize_def lookup_def strict_equals_def)
  show ?thesis
    using put flushB(1) part1 flushA(1) part3 unfolding d1_def by simp
qed

text \<open>
  The witness for C1: the driver with a history, the tags \<open>A\<close> and \<open>B\<close>, and
  \<open>put("k", 1, 60)\<close> with the tag \<open>A\<close>. The index of \<open>B\<close> lists the
  reference key of \<open>j\<close> only.
\<close>

theorem C1_tag_isolation_witness:
  "list_all respectful used_history
   \<and> ''A'' \<noteq> ''B''
   \<and> index_refs used_MemoryDriver ''tags:B'' = [ref (new_TagSet [''B'']) ''j'']
   \<and> ref (new_TagSet [''A'']) ''k'' \<notin> set (index_refs used_MemoryDriver ''tags:B'')
   \<and> fst (MemoryDriver_put used_MemoryDriver ''k'' (JNum 1) (Some 60) (Some (new_TagSet [''A''])))
       = Resolved ()
   \<and> fst (MemoryDriver_flush
              (snd (MemoryDriver_put used_MemoryDriver ''k'' (JNum 1) (Some 60)
                      (Some (new_TagSet [''A'']))))
              (Some (new_TagSet [''B'']))) = Resolved ()
   \<and> MemoryDriver_get
        (snd (MemoryDriver_flush
                (snd (MemoryDriver_put used_MemoryDriver ''k'' (JNum 1) (Some 60)
                        (Some (new_TagSet [''A'']))))
                (Some (new_TagSet [''B''])))) ''k'' (Some (new_TagSet [''A'']))
       = JNum 1
   \<and> fst (MemoryDriver_flush
              (snd (MemoryDriver_put used_MemoryDriver ''k'' (JNum 1) (Some 60)
                      (Some (new_TagSet [''A'']))))
              (Some (new_TagSet [''A'']))) = Resolved ()
   \<and> \<not> MemoryDriver_has
        (snd (MemoryDriver_flush
                (snd (MemoryDriver_put used_MemoryDriver ''k'' (JNum 1) (Some 60)
                        (Some (new_TagSet [''A'']))))
                (Some (new_TagSet [''A''])))) ''k'' (Some (new_TagSet [''A'']))
   \<and> MemoryDriver_get
        (snd (MemoryDriver_flush
                (snd (MemoryDriver_put used_MemoryDriver ''k'' (JNum 1) (Some 60)
                        (Some (new_TagSet [''A'']))))
                (Some (new_TagSet [''A''])))) ''k'' (Some (new_TagSet [''A'']))
       = JUndefined"
proof -
  have codec: "serialize decimal_Serializer (JNum 1) = JStr ''1''"
      "serialize decimal_Serializer (JNum 2) = JStr ''2''"
      "deserialize decimal_Serializer (JStr ''1'') = JNum 1"
      "deserialize decimal_Serializer JUndefined = JUndefined"
    by (simp_all add: decimal_Serializer_def show_int_def show_nat.simps digit_char_def
        string_to_number_def trim_def is_space_def unsigned_to_number_def is_digit_def
        digits_value_def)
  have history: "list_all respectful used_history"
    by (simp add: used_history_def reserved_def)
  have state: "serializer used_MemoryDriver = Some decimal_Serializer"
      "prototype used_MemoryDriver = ObjectPrototype"
      "memory used_MemoryDriver
         = [''total'' \<mapsto> JStr ''1'',
            ''tags:B'' \<mapsto> JArr [JStr (ref (new_TagSet [''B'']) ''j'')],
            ref (new_TagSet [''B'']) ''j'' \<mapsto> JStr ''2'']"
    by (simp_all add: used_MemoryDriver_def used_history_def driver_after_def new_MemoryDriver_def
        setInterval_def MemoryDriver_put_def forEach_single put_index_def put_value_def
        set_property_own Driver_serialize_def codec tick_def)
  have refs: "index_refs used_MemoryDriver ''tags:B'' = [ref (new_TagSet [''B'']) ''j'']"
    by (simp add: index_refs_def state lookup_def)
  have fresh: "ref (new_TagSet [''A'']) ''k'' \<notin> set (index_refs used_MemoryDriver ''tags:B'')"
    by (simp add: refs ref_def new_TagSet_def Let_def)
  have read: "MemoryDriver_get
      (snd (MemoryDriver_put used_MemoryDriver ''k'' (JNum 1) (Some 60) (Some (new_TagSet [''A'']))))
      ''k'' (Some (new_TagSet [''A''])) = JNum 1"
    by (simp add: MemoryDriver_get_def MemoryDriver_put_def forEach_single put_index_def
        put_value_def set_property_own resolve_key_def state
        Driver_serialize_def Driver_deserialize_def codec)
  show ?thesis
    using C1_tag_isolation [where cs = used_history and d = used_MemoryDriver
        and options = "\<lparr> namespace_opt = None, serializer = Some decimal_Serializer \<rparr>"
        and rt = "\<lparr> intervals = [], next_handle = 0 \<rparr>"
        and a = "''A''" and b = "''B''" and k = "''k''" and v = "JNum 1" and t = "Some 60"]
      history refs fresh read codec(4)
    by (simp add: used_MemoryDriver_def)
qed

text \<open>
  The counterexample to C1 as stated. The single tag \<open>b|tags:c\<close> and the tag
  pair \<open>b\<close>, \<open>c\<close> join to the same string \<open>"tags:b|tags:c"\<close>, so they share
  their reference keys. On a driver where \<open>k\<close> was put with the tags \<open>b\<close> and
  \<open>c\<close>, a put with the single tag \<open>b|tags:c\<close> resolves and the entry can be
  read, but a flush of the other single tag \<open>b\<close> deletes it.
\<close>

theorem C1_counterexample:
  "''b|tags:c'' \<noteq> ''b''
   \<and> fst (MemoryDriver_put two_tag_driver ''k'' (JNum 1) (Some 60) (Some (new_TagSet [''b|tags:c''])))
       = Resolved ()
   \<and> MemoryDriver_get
        (snd (MemoryDriver_put two_tag_driver ''k'' (JNum 1) (Some 60)
                (Some (new_TagSet [''b|tags:c''])))) ''k'' (Some (new_TagSet [''b|tags:c'']))
       = JNum 1
   \<and> fst (MemoryDriver_flush
              (snd (MemoryDriver_put two_tag_driver ''k'' (JNum 1) (Some 60)
                      (Some (new_TagSet [''b|tags:c'']))))
              (Some (new_TagSet [''b'']))) = Resolved ()
   \<and> MemoryDriver_get
        (snd (MemoryDriver_flush
                (snd (MemoryDriver_put two_tag_driver ''k'' (JNum 1) (Some 60)
                        (Some (new_TagSet [''b|tags:c'']))))
                (Some (new_TagSet [''b''])))) ''k'' (Some (new_TagSet [''b|tags:c'']))
       = JUndefined"
  by (simp add: two_tag_driver_def MemoryDriver_put_def MemoryDriver_flush_def MemoryDriver_get_def
      put_index_def put_value_def set_property_def flush_index_def delete_all_def resolve_key_def
      ref_def new_TagSet_def Let_def plain_MemoryDriver_def new_MemoryDriver_def setInterval_def
      lookup_def object_prototype_property_def object_prototype_names_def
      Driver_deserialize_def Driver_serialize_def strict_equals_def)

subsection \<open>The tag indexes hold no reference twice\<close>

lemma ref_not_tag_key: "take 5 (ref (new_TagSet ns) k) \<noteq> ''tags:''"
proof -
  obtain c cs where "sha1_hex (namespace (new_TagSet ns)) = c # cs" "c \<in> set ''0123456789abcdef''"
    using sha1_hex_Cons by blast
  then show ?thesis by (auto simp: ref_def new_TagSet_def Let_def)
qed

lemma duplicate_free_upd_other:
  "duplicate_free m \<Longrightarrow> take 5 k \<noteq> ''tags:'' \<Longrightarrow> duplicate_free (m(k \<mapsto> v))"
  by (auto simp: duplicate_free_def)

lemma duplicate_free_upd_distinct:
  "duplicate_free m \<Longrightarrow> distinct xs \<Longrightarrow> duplicate_free (m(k \<mapsto> JArr xs))"
  by (auto simp: duplicate_free_def)

lemma duplicate_free_del: "duplicate_free m \<Longrightarrow> duplicate_free (m(k := None))"
  by (auto simp: duplicate_free_def)

lemma duplicate_free_lookup:
  "duplicate_free m \<Longrightarrow> lookup p m k = JArr xs \<Longrightarrow> take 5 k = ''tags:'' \<Longrightarrow> distinct xs"
  using lookup_tags_array [of k p m xs] by (auto simp: duplicate_free_def)

lemma distinct_splice1: "distinct xs \<Longrightarrow> distinct (splice1 i xs)"
  using set_take_disj_set_drop_if_distinct [of xs i "Suc i"]
  by (auto simp: splice1_def)

lemma put_index_duplicate_free:
  assumes "duplicate_free m"
  shows "duplicate_free (snd (put_index p r k m))"
proof (cases "take 5 k = ''tags:''")
  case False
  then show ?thesis
    using assms
    by (cases "lookup p m k")
       (auto simp: put_index_def Let_def intro!: duplicate_free_upd_other)
next
  case True
  show ?thesis
  proof (cases "lookup p m k")
    case (JArr xs)
    have "distinct xs" using duplicate_free_lookup [OF assms JArr True] .
    then show ?thesis
      using assms JArr
      by (auto simp: put_index_def Let_def array_indexOf_neg intro!: duplicate_free_upd_distinct)
  qed (use assms in \<open>auto simp: put_index_def Let_def intro!: duplicate_free_upd_distinct\<close>)
qed

lemma forget_index_duplicate_free:
  assumes "duplicate_free m"
  shows "duplicate_free (snd (forget_index p r k m))"
proof (cases "take 5 k = ''tags:''")
  case False
  then show ?thesis
    using assms
    by (cases "lookup p m k")
       (auto simp: forget_index_def Let_def intro!: duplicate_free_upd_other)
next
  case True
  show ?thesis
  proof (cases "lookup p m k")
    case (JArr xs)
    have "distinct xs" using duplicate_free_lookup [OF assms JArr True] .
    then show ?thesis
      using assms JArr
      by (auto simp: forget_index_def Let_def distinct_splice1 intro!: duplicate_free_upd_distinct)
  qed (use assms in \<open>auto simp: forget_index_def\<close>)
qed

lemma delete_all_duplicate_free: "duplicate_free m \<Longrightarrow> duplicate_free (delete_all xs m)"
  by (auto simp: duplicate_free_def delete_all_apply split: if_splits)

lemma flush_index_duplicate_free:
  assumes "duplicate_free m"
  shows "duplicate_free (snd (flush_index p k m))"
  using assms
  by (cases "lookup p m k")
     (auto simp: flush_index_def intro!: duplicate_free_del delete_all_duplicate_free)

lemma put_duplicate_free:
  assumes "duplicate_free (memory d)"
  shows "duplicate_free (memory (snd (MemoryDriver_put d k v t (Some (new_TagSet ns)))))"
proof -
  obtain e m where loop:
    "forEach_key (put_index (prototype d) (ref (new_TagSet ns) k)) (keys (new_TagSet ns)) (memory d) = (e, m)"
    by (cases "forEach_key (put_index (prototype d) (ref (new_TagSet ns) k)) (keys (new_TagSet ns)) (memory d)")
  have "duplicate_free (snd (forEach_key (put_index (prototype d) (ref (new_TagSet ns) k)) (keys (new_TagSet ns)) (memory d)))"
    by (rule forEach_key_preserves [where P = duplicate_free]) (simp_all add: put_index_duplicate_free assms)
  then have m: "duplicate_free m" using loop by simp
  show ?thesis
  proof (cases e)
    case None
    have "duplicate_free (m(ref (new_TagSet ns) k \<mapsto> Driver_serialize (d\<lparr>memory := m\<rparr>) v))"
      using m ref_not_tag_key by (rule duplicate_free_upd_other)
    then show ?thesis
      using loop None by (simp add: MemoryDriver_put_def put_value_memory Driver_serialize_def)
  next
    case (Some err)
    then show ?thesis using loop m by (simp add: MemoryDriver_put_def)
  qed
qed

lemma putMany_duplicate_free:
  "duplicate_free (memory d) \<Longrightarrow>
   duplicate_free (memory (snd (MemoryDriver_putMany d items t (Some (new_TagSet ns)))))"
proof (induction items arbitrary: d)
  case Nil
  then show ?case by simp
next
  case (Cons item items)
  obtain r d' where step: "MemoryDriver_put d (fst item) (snd item) t (Some (new_TagSet ns)) = (r, d')"
    by (cases "MemoryDriver_put d (fst item) (snd item) t (Some (new_TagSet ns))")
  obtain r' d'' where rest: "MemoryDriver_putMany d' items t (Some (new_TagSet ns)) = (r', d'')"
    by (cases "MemoryDriver_putMany d' items t (Some (new_TagSet ns))")
  have "duplicate_free (memory d')"
    using put_duplicate_free [OF Cons.prems, of "fst item" "snd item" t ns] step by simp
  from Cons.IH [OF this] have "duplicate_free (memory d'')" using rest by simp
  then show ?case using step rest by (cases r) simp_all
qed

lemma forget_duplicate_free:
  assumes "duplicate_free (memory d)"
  shows "duplicate_free (memory (snd (MemoryDriver_forget d k tagset)))"
proof (cases tagset)
  case None
  then show ?thesis
    using assms by (auto simp: MemoryDriver_forget_def forget_value_def Let_def intro!: duplicate_free_del)
next
  case (Some ts)
  have "duplicate_free (snd (forEach_key (forget_index (prototype d) (ref ts k)) (keys ts) (memory d)))"
    by (rule forEach_key_preserves [where P = duplicate_free]) (simp_all add: forget_index_duplicate_free assms)
  then show ?thesis
    using Some
    by (auto simp: MemoryDriver_forget_def forget_value_def Let_def
        intro!: duplicate_free_del split: prod.splits option.splits)
qed

lemma flush_duplicate_free:
  assumes "duplicate_free (memory d)"
  shows "duplicate_free (memory (snd (MemoryDriver_flush d tagset)))"
proof (cases tagset)
  case None
  then show ?thesis by (simp add: MemoryDriver_flush_def duplicate_free_def)
next
  case (Some ts)
  have "duplicate_free (snd (forEach_key (flush_index (prototype d)) (keys ts) (memory d)))"
    by (rule forEach_key_preserves [where P = duplicate_free]) (simp_all add: flush_index_duplicate_free assms)
  then show ?thesis
    using Some by (auto simp: MemoryDriver_flush_def split: prod.splits option.splits)
qed

lemma tick_duplicate_free: "duplicate_free (memory d) \<Longrightarrow> duplicate_free (memory (tick d))"
  by (auto simp: duplicate_free_def memory_tick split: if_splits)

lemma run_operation_duplicate_free:
  "duplicate_free (memory d) \<Longrightarrow> duplicate_free (memory (run_operation d x))"
  by (cases x)
     (simp_all add: put_duplicate_free putMany_duplicate_free forget_duplicate_free
        flush_duplicate_free tick_duplicate_free MemoryDriver_forever_def)

text \<open>A put without tags writes the caller's value under the caller's key: it
  keeps the invariant when the key does not start with \<open>"tags:"\<close> or the
  serialized value is not an array.\<close>

lemma put_untagged_duplicate_free:
  assumes "duplicate_free (memory d)"
      and "take 5 k \<noteq> ''tags:'' \<or> \<not> is_array (Driver_serialize d v)"
  shows "duplicate_free (memory (snd (MemoryDriver_put d k v t None)))"
proof -
  have "duplicate_free ((memory d)(k \<mapsto> Driver_serialize d v))"
  proof (cases "take 5 k = ''tags:''")
    case False
    with assms(1) show ?thesis by (rule duplicate_free_upd_other)
  next
    case True
    then have "\<not> is_array (Driver_serialize d v)" using assms(2) by simp
    then show ?thesis
      using assms(1) by (cases "Driver_serialize d v") (auto simp: duplicate_free_def)
  qed
  then show ?thesis
    using assms(1) by (auto simp: put_untagged put_value_def set_property_def Driver_serialize_def)
qed

text \<open>
  Claim C10. The value object of a driver as constructed holds no tag-index array
  with a duplicate, and every sequence of \<open>put\<close>, \<open>putMany\<close>, \<open>forever\<close>,
  \<open>forget\<close> and \<open>flush\<close> with any TagSets (and of sweep ticks, and of
  \<open>forget\<close> and \<open>flush\<close> without tags) keeps it so, whether the promises are
  resolved or rejected: \<open>put\<close> pushes a reference only when \<open>indexOf\<close> does not
  find it, \<open>forget\<close> removes one element, and the value itself is written
  under a reference key, which never starts with \<open>"tags:"\<close>.
\<close>

theorem C10_indexes_duplicate_free:
  "duplicate_free (memory (fst (new_MemoryDriver options rt)))
   \<and> (duplicate_free (memory d) \<longrightarrow> duplicate_free (memory (run_operations d ops)))"
proof
  show "duplicate_free (memory (fst (new_MemoryDriver options rt)))"
    by (simp add: new_MemoryDriver_def setInterval_def duplicate_free_def)
  show "duplicate_free (memory d) \<longrightarrow> duplicate_free (memory (run_operations d ops))"
    by (induction ops arbitrary: d) (auto simp: run_operation_duplicate_free)
qed

text \<open>
  The witness for C10: the same key put twice under the same tag, forgotten and
  flushed, from a driver as constructed.
\<close>

theorem C10_indexes_duplicate_free_witness:
  "duplicate_free (memory plain_MemoryDriver)
   \<and> duplicate_free
        (memory (run_operations plain_MemoryDriver
           [Put ''k'' (JNum 1) (Some 60) [''a''], Put ''k'' (JNum 2) (Some 60) [''a''],
            Forget ''k'' (Some [''a'']), Flush (Some [''a''])]))"
proof -
  have "duplicate_free (memory plain_MemoryDriver)"
    by (simp add: plain_MemoryDriver_def new_MemoryDriver_def setInterval_def duplicate_free_def)
  then show ?thesis
    using C10_indexes_duplicate_free [where d = plain_MemoryDriver and ops =
        "[Put ''k'' (JNum 1) (Some 60) [''a''], Put ''k'' (JNum 2) (Some 60) [''a''],
          Forget ''k'' (Some [''a'']), Flush (Some [''a''])]"]
    by blast
qed

section \<open>Increment and decrement\<close>

lemma show_int_5: "show_int 5 = ''5''" and show_int_m5: "show_int (- 5) = ''-5''"
  by (simp_all add: show_int_def show_nat.simps [of 5] digit_char_def)

lemma typeof_never_undefined: "\<not> strict_equals (js_typeof v) JUndefined"
  by (cases v) (simp_all add: strict_equals_def)

lemma strict_equals_JStr: "strict_equals x (JStr s) = (x = JStr s)"
  by (auto simp: strict_equals_def)

text \<open>On a key that is not stored, the remote drivers count from zero.\<close>

lemma RedisDriver_increment_absent:
  assumes "redis_up (redis d)" and "redis_store (redis d) (resolve_key tagset k) = None"
  shows "fst (RedisDriver_increment d k a tagset) = Resolved (JNum a)"
    and "fst (RedisDriver_decrement d k a tagset) = Resolved (JNum (- a))"
  using assms
  by (simp_all add: RedisDriver_increment_def RedisDriver_decrement_def Let_def redis_get_def
      redis_set_def js_sub_def)

lemma MemcachedDriver_increment_absent:
  assumes "memcached_up (memcached d)" and "memcached_store (memcached d) (resolve_key tagset k) = None"
  shows "fst (MemcachedDriver_increment d k a tagset) = Resolved (JNum a)"
    and "fst (MemcachedDriver_decrement d k a tagset) = Resolved (JNum (- a))"
  using assms
  by (simp_all add: MemcachedDriver_increment_def MemcachedDriver_decrement_def Let_def
      memcached_get_def memcached_set_def js_sub_def)

text \<open>MemoryDriver compares \<open>typeof value\<close> with the value \<open>undefined\<close>, which
  no \<open>typeof\<close> result equals, so an absent value is never replaced by zero.\<close>

lemma MemoryDriver_increment_absent:
  assumes "lookup (prototype d) (memory d) (resolve_key tagset k) = JUndefined"
      and "Driver_deserialize d JUndefined = JUndefined"
  shows "MemoryDriver_increment d k a tagset = (Rejected (Error ''cannot increase a non-number value''), d)"
    and "MemoryDriver_decrement d k a tagset = (Rejected (Error ''cannot decrease a non-number value''), d)"
  using assms
  by (simp_all add: MemoryDriver_increment_def MemoryDriver_decrement_def Let_def
      typeof_never_undefined strict_equals_JStr)

text \<open>
  Claim C4 at its failing input: on a MemoryDriver as constructed,
  \<open>increment("k", 5)\<close> and \<open>decrement("k", 5)\<close> of the absent key \<open>k\<close> are
  rejected and leave the driver as it was, where the claim has them resolve with
  \<open>5\<close> and \<open>-5\<close>.
\<close>

theorem C4_memory_increment_absent:
  "MemoryDriver_increment plain_MemoryDriver ''k'' 5 None
     = (Rejected (Error ''cannot increase a non-number value''), plain_MemoryDriver)
   \<and> MemoryDriver_decrement plain_MemoryDriver ''k'' 5 None
     = (Rejected (Error ''cannot decrease a non-number value''), plain_MemoryDriver)"
  by (simp add: MemoryDriver_increment_def MemoryDriver_decrement_def Let_def
      object_prototype_property_def object_prototype_names_def
      typeof_never_undefined strict_equals_JStr resolve_key_def plain_MemoryDriver_def
      new_MemoryDriver_def setInterval_def Driver_deserialize_def)

text \<open>MemoryDriver rejects a stored value that is not a number, and writes
  nothing.\<close>

lemma MemoryDriver_increment_non_number:
  assumes "js_typeof (Driver_deserialize d (lookup (prototype d) (memory d) (resolve_key tagset k))) \<noteq> JStr ''number''"
  shows "MemoryDriver_increment d k a tagset = (Rejected (Error ''cannot increase a non-number value''), d)"
    and "MemoryDriver_decrement d k a tagset = (Rejected (Error ''cannot decrease a non-number value''), d)"
  using assms
  by (simp_all add: MemoryDriver_increment_def MemoryDriver_decrement_def Let_def
      typeof_never_undefined strict_equals_JStr)

text \<open>
  Claim C5 at its failing input: the remote drivers test \<open>Number.isNaN(value)\<close>,
  which is false of a string. With the string \<open>"abc"\<close> stored under \<open>k\<close>,
  \<open>increment("k", 5)\<close> resolves with \<open>"abc5"\<close> and stores it, and
  \<open>decrement("k", 5)\<close> resolves with \<open>NaN\<close> and stores it (on the Redis server
  as the text \<open>"NaN"\<close>), where the claim has both fail and leave the stored
  value.
\<close>

theorem C5_remote_increment_overwrites:
  "RedisDriver_increment (plain_RedisDriver [(''k'', JStr ''abc'')]) ''k'' 5 None
     = (Resolved (JStr ''abc5''), plain_RedisDriver [(''k'', JStr ''abc5'')])
   \<and> MemcachedDriver_increment (plain_MemcachedDriver [(''k'', JStr ''abc'')]) ''k'' 5 None
     = (Resolved (JStr ''abc5''), plain_MemcachedDriver [(''k'', JStr ''abc5'')])
   \<and> fst (RedisDriver_decrement (plain_RedisDriver [(''k'', JStr ''abc'')]) ''k'' 5 None)
     = Resolved JNaN
   \<and> redis_store (redis (snd (RedisDriver_decrement (plain_RedisDriver [(''k'', JStr ''abc'')]) ''k'' 5 None))) ''k''
     = Some (JStr ''NaN'')"
  by (simp add: RedisDriver_increment_def RedisDriver_decrement_def MemcachedDriver_increment_def
      plain_RedisDriver_def plain_MemcachedDriver_def Let_def redis_get_def redis_set_def
      memcached_get_def memcached_set_def resolve_key_def Driver_deserialize_def Driver_serialize_def
      show_int_5 js_sub_def string_to_number_def trim_def is_space_def unsigned_to_number_def
      is_digit_def)

section \<open>forever\<close>

text \<open>\<open>MemoryDriver.forever\<close> serializes the value and hands it to \<open>put\<close>,
  which serializes it again.\<close>

lemma forever_stores_twice_serialized:
  "k \<noteq> ''__proto__'' \<Longrightarrow>
   memory (snd (MemoryDriver_forever d k v None)) k = Some (Driver_serialize d (Driver_serialize d v))"
  by (simp add: MemoryDriver_forever_def put_untagged put_value_memory)

lemma forever_get:
  assumes "\<And>x. Driver_deserialize d (Driver_serialize d x) = x" and "k \<noteq> ''__proto__''"
  shows "MemoryDriver_get (snd (MemoryDriver_forever d k v None)) k None = Driver_serialize d v"
  using assms(1) [of "Driver_serialize d v"] assms(2)
  by (simp add: MemoryDriver_forever_def put_untagged put_value_memory MemoryDriver_get_def
      resolve_key_def Driver_deserialize_def Driver_serialize_def)

text \<open>
  Claim C7 at its failing input: with the JSON serializer, \<open>forever("k", 5)\<close>
  stores the text \<open>"\"5\""\<close> where \<open>put("k", 5)\<close> without TTL (or with TTL 0)
  stores the text \<open>"5"\<close>; this holds whatever \<open>JSON.parse\<close> is.
\<close>

theorem C7_forever_serializes_twice:
  "memory (snd (MemoryDriver_forever (json_MemoryDriver P) ''k'' (JNum 5) None)) ''k''
     = Some (JStr [CHR 0x22, CHR ''5'', CHR 0x22])
   \<and> memory (snd (MemoryDriver_put (json_MemoryDriver P) ''k'' (JNum 5) None None)) ''k''
     = Some (JStr ''5'')
   \<and> memory (snd (MemoryDriver_put (json_MemoryDriver P) ''k'' (JNum 5) (Some 0) None)) ''k''
     = Some (JStr ''5'')"
  by (simp add: MemoryDriver_forever_def put_untagged put_value_memory json_MemoryDriver_def
      new_MemoryDriver_def setInterval_def Driver_serialize_def JsonSerializer_def
      JsonSerializer_serialize_def JSON_stringify_def show_int_5 json_quote_def json_escape_def)

section \<open>getMany\<close>

lemma MemoryDriver_getMany_shape:
  "length (MemoryDriver_getMany d ks tagset) = length ks
   \<and> (\<forall>i < length ks. MemoryDriver_getMany d ks tagset ! i = MemoryDriver_get d (ks ! i) tagset)"
  by (simp add: MemoryDriver_getMany_def MemoryDriver_get_def)

lemma RedisDriver_getMany_shape:
  assumes "redis_up (redis d)"
  shows "\<exists>vs. RedisDriver_getMany d ks tagset = Resolved vs \<and> length vs = length ks"
  using assms by (simp add: RedisDriver_getMany_def redis_mget_def)

text \<open>The Memcached driver maps over the property names of the reply object, so
  its result has one element for each stored key among the different keys asked
  for.\<close>

lemma MemcachedDriver_getMany_length:
  assumes "MemcachedDriver_getMany d ks tagset = Resolved vs"
  shows "length vs \<le> length (remdups (map (resolve_key tagset) ks))"
proof -
  have "length (concat (map (\<lambda>k. case m k of None \<Rightarrow> [] | Some v \<Rightarrow> [(k, v)]) xs)) \<le> length xs"
    for m :: "string \<rightharpoonup> jsval" and xs
    by (induction xs) (auto split: option.splits)
  then show ?thesis
    using assms
    by (auto simp: MemcachedDriver_getMany_def memcached_getMulti_def split: if_splits)
qed

text \<open>
  Claim C8 at its failing input: with only \<open>a\<close> stored, the Memcached driver's
  \<open>getMany(["a", "b"])\<close> and \<open>getMany(["a", "a"])\<close> resolve with one element,
  where the claim has two.
\<close>

theorem C8_memcached_getMany_drops_slots:
  "MemcachedDriver_getMany (plain_MemcachedDriver [(''a'', JNum 1)]) [''a'', ''b''] None
     = Resolved [JNum 1]
   \<and> MemcachedDriver_getMany (plain_MemcachedDriver [(''a'', JNum 1)]) [''a'', ''a''] None
     = Resolved [JNum 1]"
  by (simp add: MemcachedDriver_getMany_def memcached_getMulti_def plain_MemcachedDriver_def
      resolve_key_def Driver_deserialize_def)

section \<open>dispose\<close>

text \<open>
  Claim C9 at its failing input: \<open>dispose\<close> deletes \<open>this.timer\<close> before it
  calls \<open>clearInterval(this.timer)\<close>, which therefore gets \<open>undefined\<close>. The
  runtime is left as it was, and the handle that the constructor obtained from
  \<open>setInterval\<close> is still live after \<open>dispose\<close>.
\<close>

theorem C9_dispose_leaves_timer:
  "timer (fst (new_MemoryDriver options rt))
     \<in> set (intervals (snd (snd (MemoryDriver_dispose (fst (new_MemoryDriver options rt))
                                   (snd (new_MemoryDriver options rt))))))
   \<and> snd (snd (MemoryDriver_dispose d rt')) = rt'"
  by (simp add: MemoryDriver_dispose_def new_MemoryDriver_def setInterval_def clearInterval_def
      props_of_def Let_def)

end
